theory Spec2Isabelle
  imports Main "HOL-Library.Multiset"
begin

section \<open>Strings and JavaScript truthiness\<close>

text \<open>
  JavaScript strings are modelled as \<open>string\<close>. A value of type \<open>string | undefined\<close> is a
  \<open>string option\<close>; in a condition it counts as true exactly when it is a non-empty string.
\<close>

fun truthy :: "string option \<Rightarrow> bool" where
  "truthy None = False"
| "truthy (Some s) = (s \<noteq> [])"

definition startsWith :: "string \<Rightarrow> string \<Rightarrow> bool" where
  "startsWith s p = (take (length p) s = p)"

definition endsWith :: "string \<Rightarrow> string \<Rightarrow> bool" where
  "endsWith s p = (length p \<le> length s \<and> drop (length s - length p) s = p)"

text \<open>\<open>occursIn p s\<close>: the literal \<open>p\<close> occurs somewhere in \<open>s\<close> (an unanchored regular
  expression made of literal characters only).\<close>

fun occursIn :: "string \<Rightarrow> string \<Rightarrow> bool" where
  "occursIn p [] = (p = [])"
| "occursIn p (c # cs) = (startsWith (c # cs) p \<or> occursIn p cs)"

text \<open>\<open>s.split(c)\<close>: the pieces of \<open>s\<close> between the occurrences of \<open>c\<close>; never empty.\<close>

fun split_on :: "char \<Rightarrow> string \<Rightarrow> string list" where
  "split_on c [] = [[]]"
| "split_on c (x # xs) =
     (if x = c then [] # split_on c xs
      else (case split_on c xs of [] \<Rightarrow> [[x]] | w # ws \<Rightarrow> (x # w) # ws))"

text \<open>The line terminators, which the regular expression \<open>.\<close> does not match (line feed and
  carriage return, among the characters of the model).\<close>

definition lineTerminator :: "char \<Rightarrow> bool" where
  "lineTerminator c = (c = CHR 0x0A \<or> c = CHR 0x0D)"

section \<open>Data\<close>

datatype error = TypeError | SyntaxError

datatype result_type = Success | Failed

text \<open>The result of \<open>loadConfig\<close> (package tsconfig-paths).\<close>

record config =
  resultType :: result_type
  absoluteBaseUrl :: string
  paths :: "(string \<times> string list) list option"
  mainFields :: "string list option"
  addMatchAll :: "bool option"
  configFileAbsolutePath :: string

text \<open>The raw configuration file as \<open>loadTsconfig\<close> returns it.\<close>

record rawCompilerOptions =
  raw_allowJs :: "bool option"
  raw_checkJs :: "bool option"

record tsconfig =
  ts_include :: "string list option"
  ts_exclude :: "string list option"
  ts_compilerOptions :: "rawCompilerOptions option"

text \<open>\<open>interface CompilerOptions\<close>; \<open>co_allowJs\<close> is the truth value of \<open>allowJs || checkJs\<close>.\<close>

record compilerOptions =
  co_include :: "string list option"
  co_exclude :: "string list option"
  co_allowJs :: bool

text \<open>\<open>type PluginOptions\<close>.\<close>

record pluginOptions =
  opt_root :: "string option"
  opt_projects :: "string list option"
  opt_extensions :: "string list option"
  opt_loose :: "bool option"

text \<open>
  The functions the source imports or receives from its host. None of them is part of the
  repository, so the model takes them as parameters:
  \<open>dirname\<close>, \<open>isAbsolute\<close>, \<open>join\<close>, \<open>resolve\<close> from Node's \<open>path\<close>;
  \<open>normalizePath\<close> from vite; \<open>loadConfig\<close>, \<open>loadTsconfig\<close>, \<open>createMatchPathAsync\<close> from
  tsconfig-paths; \<open>crawl\<close> from recrawl-sync; \<open>globRex\<close> from globrex (called with
  \<open>extended: true\<close>; the result stands for the \<open>test\<close> method of the compiled regular
  expression, \<open>Inl\<close> for a pattern the compiler throws on); \<open>viteResolve\<close>, the host's own
  resolution, \<open>this.resolve(id, importer, {skipSelf: true})?.id\<close>.
  The matcher that \<open>createMatchPathAsync\<close> returns is called as
  \<open>matchPath(id, undefined, undefined, extensions, callback)\<close>; the model gives it the
  specifier and the extensions and returns the path handed to the callback.
  The file system and the host are taken to answer the same way during a session.
\<close>

record env =
  dirname :: "string \<Rightarrow> string"
  isAbsolute :: "string \<Rightarrow> bool"
  join :: "string \<Rightarrow> string \<Rightarrow> string"
  resolve :: "string \<Rightarrow> string \<Rightarrow> string"
  normalizePath :: "string \<Rightarrow> string"
  loadConfig :: "string \<Rightarrow> config"
  loadTsconfig :: "string \<Rightarrow> tsconfig option"
  createMatchPathAsync ::
    "string \<Rightarrow> (string \<times> string list) list \<Rightarrow> string list \<Rightarrow> bool option
       \<Rightarrow> string \<Rightarrow> string list \<Rightarrow> string option"
  crawl :: "string \<Rightarrow> string list"
  globRex :: "string \<Rightarrow> error + (string \<Rightarrow> bool)"
  viteResolve :: "string \<Rightarrow> string \<Rightarrow> string option"

text \<open>
  What a call does besides returning: the orchestrator calling the resolver of a root, a
  resolver calling the alias matcher on a specifier, and a resolver handing a candidate path
  and the importer to the host's resolution.
\<close>

datatype event = Consult string | MatchPath string | ViteResolve string string

section \<open>The regular expressions of the source\<close>

text \<open>\<open>relativeImportRE = /^\.\.?(\/|$)/\<close>\<close>

definition relativeImportRE :: "string \<Rightarrow> bool" where
  "relativeImportRE s =
     (s = ''.'' \<or> s = ''..'' \<or> startsWith s ''./'' \<or> startsWith s ''../'')"

text \<open>\<open>nodeModulesRE = /\/node_modules\//\<close>\<close>

definition nodeModulesRE :: "string \<Rightarrow> bool" where
  "nodeModulesRE s = occursIn ''/node_modules/'' s"

text \<open>
  The three values of \<open>importerExtRE\<close>: \<open>/./\<close>,
  \<open>/\.(vue|svelte|mdx|mjs|[jt]sx?)$/\<close> and \<open>/\.tsx?$/\<close>.
\<close>

datatype importerExt = AnyChar | ScriptLike | TypeScriptOnly

fun importerExtRE_test :: "importerExt \<Rightarrow> string \<Rightarrow> bool" where
  "importerExtRE_test AnyChar s = (\<exists>c \<in> set s. \<not> lineTerminator c)"
| "importerExtRE_test ScriptLike s =
     (\<exists>e \<in> set [''.vue'', ''.svelte'', ''.mdx'', ''.mjs'', ''.js'', ''.jsx'', ''.ts'', ''.tsx''].
        endsWith s e)"
| "importerExtRE_test TypeScriptOnly s = (endsWith s ''.ts'' \<or> endsWith s ''.tsx'')"

section \<open>Leaf functions\<close>

text \<open>\<open>isLocalDescendant(path, root)\<close>\<close>

definition isLocalDescendant :: "string \<Rightarrow> string \<Rightarrow> bool" where
  "isLocalDescendant path root =
     (startsWith path root \<and> \<not> nodeModulesRE (drop (length root) path))"

text \<open>\<open>loadCompilerOptions(configPath)\<close>: destructuring a missing configuration or a missing
  \<open>compilerOptions\<close> object throws.\<close>

definition loadCompilerOptions :: "env \<Rightarrow> string \<Rightarrow> error + compilerOptions" where
  "loadCompilerOptions E configPath =
     (case loadTsconfig E configPath of
        None \<Rightarrow> Inl TypeError
      | Some t \<Rightarrow>
          (case ts_compilerOptions t of
             None \<Rightarrow> Inl TypeError
           | Some c \<Rightarrow>
               Inr \<lparr>co_include = ts_include t, co_exclude = ts_exclude t,
                    co_allowJs = (raw_allowJs c = Some True \<or> raw_checkJs c = Some True)\<rparr>))"

text \<open>\<open>compileGlob(glob)\<close>\<close>

definition compileGlob :: "env \<Rightarrow> string \<Rightarrow> error + (string \<Rightarrow> bool)" where
  "compileGlob E glob = globRex E (glob @ (if endsWith glob ''*'' then [] else ''**/*''))"

text \<open>\<open>xs.map(f)\<close> for an \<open>f\<close> that may throw: the first error ends the loop.\<close>

fun mapE :: "('a \<Rightarrow> error + 'b) \<Rightarrow> 'a list \<Rightarrow> error + 'b list" where
  "mapE f [] = Inr []"
| "mapE f (x # xs) =
     (case f x of
        Inl e \<Rightarrow> Inl e
      | Inr y \<Rightarrow> (case mapE f xs of Inl e \<Rightarrow> Inl e | Inr ys \<Rightarrow> Inr (y # ys)))"

text \<open>A pattern list that is absent counts as empty (\<open>include = []\<close>, \<open>exclude = []\<close>).\<close>

definition patterns :: "string list option \<Rightarrow> string list" where
  "patterns xs = (case xs of None \<Rightarrow> [] | Some ys \<Rightarrow> ys)"

text \<open>\<open>getIncluder({ include = [], exclude = [] })\<close>\<close>

definition getIncluder :: "env \<Rightarrow> compilerOptions \<Rightarrow> error + (string \<Rightarrow> bool)" where
  "getIncluder E co =
     (let inc = patterns (co_include co);
          exc = patterns (co_exclude co)
      in if inc \<noteq> [] \<or> exc \<noteq> [] then
           (case mapE (compileGlob E) inc of
              Inl e \<Rightarrow> Inl e
            | Inr included \<Rightarrow>
                (case mapE (compileGlob E) exc of
                   Inl e \<Rightarrow> Inl e
                 | Inr excluded \<Rightarrow>
                     Inr (\<lambda>path.
                       (included = [] \<or> (\<exists>glob \<in> set included. glob path)) \<and>
                       (excluded = [] \<or> \<not> (\<exists>glob \<in> set excluded. glob path)))))
         else Inr (\<lambda>path. True))"

text \<open>A pattern whose compiled form accepts a path.\<close>

definition globMatches :: "env \<Rightarrow> string \<Rightarrow> string \<Rightarrow> bool" where
  "globMatches E glob path = (case compileGlob E glob of Inl e \<Rightarrow> False | Inr t \<Rightarrow> t path)"

text \<open>\<open>getFileExtensions(exts)\<close>\<close>

definition requiredExts :: "string list" where
  "requiredExts = [''.ts'', ''.tsx'', ''.js'', ''.jsx'', ''.mjs'']"

definition getFileExtensions :: "string list option \<Rightarrow> string list" where
  "getFileExtensions exts = (case exts of Some xs \<Rightarrow> xs @ requiredExts | None \<Rightarrow> requiredExts)"

section \<open>Project discovery\<close>

text \<open>\<open>projectPath.split('/').length - (projectPath.endsWith('.json') ? 1 : 0)\<close>\<close>

definition depth :: "string \<Rightarrow> int" where
  "depth projectPath =
     int (length (split_on CHR ''/'' projectPath)) - (if endsWith projectPath ''.json'' then 1 else 0)"

text \<open>\<open>depthMap[p]\<close>; a key never written would read as \<open>undefined\<close>, which the comparison
  turns into no preference.\<close>

definition depthOf :: "(string \<rightharpoonup> int) \<Rightarrow> string \<Rightarrow> int" where
  "depthOf depthMap p = (case depthMap p of Some d \<Rightarrow> d | None \<Rightarrow> 0)"

text \<open>
  \<open>findProjects(viteRoot, opts)\<close>. \<open>projects.sort((a, b) => depthMap[b] - depthMap[a])\<close> is
  the sort by decreasing depth; paths of equal depth keep their order, as a stable
  \<open>Array.prototype.sort\<close> leaves them.
\<close>

definition findProjects :: "env \<Rightarrow> string \<Rightarrow> pluginOptions \<Rightarrow> string list" where
  "findProjects E viteRoot opts =
     (let root = (if truthy (opt_root opts)
                  then normalizePath E (resolve E viteRoot (the (opt_root opts)))
                  else viteRoot);
          projects = (case opt_projects opts of
                        Some ps \<Rightarrow> ps
                      | None \<Rightarrow> crawl E (if root \<noteq> [] then root else viteRoot));
          projects' = map (\<lambda>projectPath. resolve E root (normalizePath E projectPath)) projects;
          depthMap = fold (\<lambda>projectPath m. m(projectPath \<mapsto> depth projectPath)) projects' Map.empty
      in sort_key (\<lambda>p. - depthOf depthMap p) projects')"

text \<open>The intermediate values of \<open>findProjects\<close>: the root, the paths as listed or crawled,
  and the paths after \<open>resolve(root, normalizePath(projectPath))\<close>.\<close>

definition findProjects_root :: "env \<Rightarrow> string \<Rightarrow> pluginOptions \<Rightarrow> string" where
  "findProjects_root E viteRoot opts =
     (if truthy (opt_root opts)
      then normalizePath E (resolve E viteRoot (the (opt_root opts)))
      else viteRoot)"

definition listedProjects :: "env \<Rightarrow> string \<Rightarrow> pluginOptions \<Rightarrow> string list" where
  "listedProjects E viteRoot opts =
     (case opt_projects opts of
        Some ps \<Rightarrow> ps
      | None \<Rightarrow> crawl E (if findProjects_root E viteRoot opts \<noteq> []
                          then findProjects_root E viteRoot opts else viteRoot))"

definition resolvedProjects :: "env \<Rightarrow> string \<Rightarrow> pluginOptions \<Rightarrow> string list" where
  "resolvedProjects E viteRoot opts =
     map (\<lambda>projectPath. resolve E (findProjects_root E viteRoot opts) (normalizePath E projectPath))
       (listedProjects E viteRoot opts)"

section \<open>The resolver of one project\<close>

text \<open>
  What the function returned by \<open>createResolver\<close> closes over: \<open>root\<close> (with the separator
  appended), \<open>config\<close>, \<open>isIncluded\<close>, \<open>importerExtRE\<close> and the map \<open>resolved\<close>, the only part
  that changes.
\<close>

record resolver =
  r_root :: string
  r_config :: config
  r_isIncluded :: "string \<Rightarrow> bool"
  r_importerExtRE :: importerExt
  resolved :: "string \<rightharpoonup> string"

definition defaultMainFields :: "string list" where
  "defaultMainFields = [''module'', ''jsnext'', ''jsnext:main'', ''browser'', ''main'']"

text \<open>The argument of \<open>loadConfig\<close> and the root of the resolver, from a project path.\<close>

definition configPathOf :: "string \<Rightarrow> string option" where
  "configPathOf root = (if endsWith root ''.json'' then Some root else None)"

definition rootOf :: "env \<Rightarrow> string \<Rightarrow> string" where
  "rootOf E root = (if truthy (configPathOf root) then dirname E root else root) @ ''/''"

definition configOf :: "env \<Rightarrow> string \<Rightarrow> config" where
  "configOf E root =
     loadConfig E (if truthy (configPathOf root) then the (configPathOf root) else rootOf E root)"

text \<open>A project path whose configuration loads.\<close>

definition usable :: "env \<Rightarrow> string \<Rightarrow> bool" where
  "usable E root = (resultType (configOf E root) \<noteq> Failed)"

text \<open>\<open>createResolver(root)\<close>; \<open>None\<close> is the \<open>null\<close> returned for a failed configuration.\<close>

definition createResolver :: "env \<Rightarrow> pluginOptions \<Rightarrow> string \<Rightarrow> error + resolver option" where
  "createResolver E opts root =
     (let config = configOf E root
      in if resultType config = Failed then Inr None
         else
           (case loadCompilerOptions E (configFileAbsolutePath config) of
              Inl e \<Rightarrow> Inl e
            | Inr compilerOptions \<Rightarrow>
                (case getIncluder E compilerOptions of
                   Inl e \<Rightarrow> Inl e
                 | Inr isIncluded \<Rightarrow>
                     Inr (Some \<lparr>r_root = rootOf E root, r_config = config,
                                r_isIncluded = isIncluded,
                                r_importerExtRE =
                                  (if opt_loose opts \<noteq> Some True
                                   then (if co_allowJs compilerOptions then ScriptLike
                                         else TypeScriptOnly)
                                   else AnyChar),
                                resolved = Map.empty\<rparr>))))"

text \<open>\<open>resolveWithBaseUrl\<close>, the first value of the inner \<open>resolveId\<close>.\<close>

definition resolveWithBaseUrl ::
  "env \<Rightarrow> config \<Rightarrow> string \<Rightarrow> string \<Rightarrow> string option \<times> event list" where
  "resolveWithBaseUrl E config ident importer =
     (let candidate = join E (absoluteBaseUrl config) ident
      in (viteResolve E candidate importer, [ViteResolve candidate importer]))"

text \<open>
  The matcher built from a configuration with \<open>paths\<close>. \<open>createResolver\<close> builds it once;
  it is a function of the configuration, so the model builds it where it is called.
\<close>

definition matchPathOf ::
  "env \<Rightarrow> config \<Rightarrow> (string \<times> string list) list \<Rightarrow> string \<Rightarrow> string list \<Rightarrow> string option" where
  "matchPathOf E config ps =
     createMatchPathAsync E (absoluteBaseUrl config) ps
       (case mainFields config of Some m \<Rightarrow> m | None \<Rightarrow> defaultMainFields)
       (addMatchAll config)"

text \<open>\<open>resolveWithPaths\<close>, for a configuration with \<open>paths\<close>.\<close>

definition resolveWithPaths ::
  "env \<Rightarrow> string list \<Rightarrow> config \<Rightarrow> (string \<times> string list) list \<Rightarrow> string \<Rightarrow> string
     \<Rightarrow> string option \<times> event list" where
  "resolveWithPaths E extensions config ps ident importer =
     (let matchPath = matchPathOf E config ps;
          path = matchPath ident extensions
      in if truthy path
         then (let path' = normalizePath E (the path)
               in (viteResolve E path' importer, [MatchPath ident, ViteResolve path' importer]))
         else (None, [MatchPath ident]))"

text \<open>The inner \<open>resolveId\<close> of \<open>createResolver\<close>.\<close>

definition resolver_resolveId ::
  "env \<Rightarrow> string list \<Rightarrow> config \<Rightarrow> string \<Rightarrow> string \<Rightarrow> string option \<times> event list" where
  "resolver_resolveId E extensions config ident importer =
     (case paths config of
        None \<Rightarrow> resolveWithBaseUrl E config ident importer
      | Some ps \<Rightarrow>
          (let (resolved1, evs1) = resolveWithPaths E extensions config ps ident importer
           in if truthy resolved1 then (resolved1, evs1)
              else (let (resolved2, evs2) = resolveWithBaseUrl E config ident importer
                    in (resolved2, evs1 @ evs2))))"

text \<open>
  The function that \<open>createResolver\<close> returns, called on \<open>(id, importer)\<close>: the result, the
  resolver afterwards, and the calls made.
\<close>

definition resolver_call ::
  "env \<Rightarrow> string list \<Rightarrow> resolver \<Rightarrow> string \<Rightarrow> string
     \<Rightarrow> string option \<times> resolver \<times> event list" where
  "resolver_call E extensions r ident importer =
     (if importerExtRE_test (r_importerExtRE r) importer then
        (let path = resolved r ident
         in if \<not> truthy path \<and> isLocalDescendant importer (r_root r) then
              (if \<not> r_isIncluded r (drop (length (r_root r)) importer) then (None, r, [])
               else
                 (let (path', evs) = resolver_resolveId E extensions (r_config r) ident importer
                  in if truthy path'
                     then (path', r\<lparr>resolved := (resolved r)(ident \<mapsto> the path')\<rparr>, evs)
                     else (path', r, evs)))
            else (path, r, []))
      else (None, r, []))"

section \<open>The plugin\<close>

text \<open>\<open>projects.map(createResolver).filter(Boolean)\<close>\<close>

definition createResolvers :: "env \<Rightarrow> pluginOptions \<Rightarrow> string list \<Rightarrow> error + resolver list" where
  "createResolvers E opts projects =
     (case mapE (createResolver E opts) projects of
        Inl e \<Rightarrow> Inl e
      | Inr rs \<Rightarrow> Inr (List.map_filter (\<lambda>r. r) rs))"

text \<open>\<open>configResolved({ root: viteRoot })\<close>: the extensions and the resolvers it sets up.\<close>

definition configResolved ::
  "env \<Rightarrow> pluginOptions \<Rightarrow> string \<Rightarrow> error + (string list \<times> resolver list)" where
  "configResolved E opts viteRoot =
     (let projects = findProjects E viteRoot opts;
          extensions = getFileExtensions (opt_extensions opts)
      in case createResolvers E opts projects of
           Inl e \<Rightarrow> Inl e
         | Inr resolvers \<Rightarrow> Inr (extensions, resolvers))"

text \<open>The loop \<open>for (const resolve of resolvers)\<close> of the plugin's \<open>resolveId\<close>.\<close>

fun resolveLoop ::
  "env \<Rightarrow> string list \<Rightarrow> string \<Rightarrow> string \<Rightarrow> resolver list
     \<Rightarrow> string option \<times> resolver list \<times> event list" where
  "resolveLoop E extensions ident importer [] = (None, [], [])"
| "resolveLoop E extensions ident importer (r # rs) =
     (let (resolved1, r', evs) = resolver_call E extensions r ident importer
      in if truthy resolved1 then (resolved1, r' # rs, Consult (r_root r) # evs)
         else (let (resolved2, rs', evs') = resolveLoop E extensions ident importer rs
               in (resolved2, r' # rs', Consult (r_root r) # evs @ evs')))"

text \<open>The plugin's \<open>resolveId(id, importer)\<close>; \<open>importer\<close> may be undefined.\<close>

definition resolveId ::
  "env \<Rightarrow> string list \<Rightarrow> resolver list \<Rightarrow> string \<Rightarrow> string option
     \<Rightarrow> string option \<times> resolver list \<times> event list" where
  "resolveId E extensions resolvers ident importer =
     (if truthy importer \<and> \<not> relativeImportRE ident \<and> \<not> isAbsolute E ident
      then resolveLoop E extensions ident (the importer) resolvers
      else (None, resolvers, []))"

text \<open>The roots of the resolvers called, in the order of the calls.\<close>

fun consulted :: "event list \<Rightarrow> string list" where
  "consulted [] = []"
| "consulted (Consult root # evs) = root # consulted evs"
| "consulted (e # evs) = consulted evs"

text \<open>
  The resolvers \<open>rs\<close> are the resolvers \<open>rs0\<close> after any number of calls: the same closures
  in the same order, each with whatever its map \<open>resolved\<close> holds by now.
\<close>

definition sameResolvers :: "resolver list \<Rightarrow> resolver list \<Rightarrow> bool" where
  "sameResolvers rs0 rs =
     (map (\<lambda>r. r\<lparr>resolved := Map.empty\<rparr>) rs = map (\<lambda>r. r\<lparr>resolved := Map.empty\<rparr>) rs0)"

section \<open>An example session\<close>

text \<open>
  Stand-ins for the imported functions, to run the model on concrete inputs. The path
  functions follow Node's \<open>path.posix\<close> (\<open>normalize\<close>, \<open>join\<close> and \<open>resolve\<close> of two
  arguments, \<open>dirname\<close>, \<open>isAbsolute\<close>); vite's \<open>normalizePath\<close> is \<open>path.posix.normalize\<close>
  on a POSIX host.
\<close>

definition posix_isAbsolute :: "string \<Rightarrow> bool" where
  "posix_isAbsolute p = (case p of [] \<Rightarrow> False | c # _ \<Rightarrow> c = CHR ''/'')"

fun normalizeSegments :: "bool \<Rightarrow> string list \<Rightarrow> string list \<Rightarrow> string list" where
  "normalizeSegments allowAboveRoot acc [] = rev acc"
| "normalizeSegments allowAboveRoot acc (s # ss) =
     (if s = [] \<or> s = ''.'' then normalizeSegments allowAboveRoot acc ss
      else if s = ''..'' then
        (case acc of
           [] \<Rightarrow> normalizeSegments allowAboveRoot (if allowAboveRoot then [''..''] else []) ss
         | a # acc' \<Rightarrow>
             if a = ''..'' then normalizeSegments allowAboveRoot (''..'' # acc) ss
             else normalizeSegments allowAboveRoot acc' ss)
      else normalizeSegments allowAboveRoot (s # acc) ss)"

fun joinWith :: "string \<Rightarrow> string list \<Rightarrow> string" where
  "joinWith sep [] = []"
| "joinWith sep [s] = s"
| "joinWith sep (s # t # ss) = s @ sep @ joinWith sep (t # ss)"

definition posix_normalize :: "string \<Rightarrow> string" where
  "posix_normalize p =
     (if p = [] then ''.''
      else
        (let isAbs = posix_isAbsolute p;
             trailing = (last p = CHR ''/'');
             body = joinWith ''/'' (normalizeSegments (\<not> isAbs) [] (split_on CHR ''/'' p))
         in if body = [] then (if isAbs then ''/'' else if trailing then ''./'' else ''.'')
            else (if isAbs then ''/'' else []) @ body @ (if trailing then ''/'' else [])))"

definition posix_join :: "string \<Rightarrow> string \<Rightarrow> string" where
  "posix_join a b =
     (let joined = (if a = [] then b else if b = [] then a else a @ ''/'' @ b)
      in if joined = [] then ''.'' else posix_normalize joined)"

text \<open>\<open>cwd\<close> is the working directory, used when neither argument is absolute.\<close>

definition posix_resolve :: "string \<Rightarrow> string \<Rightarrow> string \<Rightarrow> string" where
  "posix_resolve cwd a b =
     (let chain = (if posix_isAbsolute b then b
                   else if posix_isAbsolute a then a @ ''/'' @ b
                   else cwd @ ''/'' @ a @ ''/'' @ b);
          isAbs = posix_isAbsolute chain;
          body = joinWith ''/'' (normalizeSegments (\<not> isAbs) [] (split_on CHR ''/'' chain))
      in if isAbs then ''/'' @ body else if body = [] then ''.'' else body)"

definition posix_dirname :: "string \<Rightarrow> string" where
  "posix_dirname p =
     (case p of
        [] \<Rightarrow> ''.''
      | c # cs \<Rightarrow>
          (let hasRoot = (c = CHR ''/'');
               t = dropWhile (\<lambda>x. x \<noteq> CHR ''/'') (dropWhile (\<lambda>x. x = CHR ''/'') (rev cs))
           in case t of
                [] \<Rightarrow> (if hasRoot then ''/'' else ''.'')
              | _ # front \<Rightarrow> (if hasRoot \<and> front = [] then ''//'' else c # rev front)))"

text \<open>
  A glob compiler for the example session, and the reading of glob patterns that the
  inclusion scenario of the specification relies on. It covers the patterns made of
  ordinary characters, \<open>/\<close> and \<open>*\<close>, read as globrex reads them without its \<open>globstar\<close>
  option: every \<open>*\<close> stands for any run of characters without a line terminator, the first
  of two adjacent \<open>/\<close> is optional, every other character stands for itself, and the pattern
  has to match the whole path. A pattern with one of the characters of \<open>globSpecial\<close> is
  outside this fragment.
\<close>

datatype rx = Lit char | AnyRun | OptSlash

fun rx_match :: "rx list \<Rightarrow> string \<Rightarrow> bool" where
  "rx_match [] s = (s = [])"
| "rx_match (Lit c # r) [] = False"
| "rx_match (Lit c # r) (x # xs) = (x = c \<and> rx_match r xs)"
| "rx_match (AnyRun # r) [] = rx_match r []"
| "rx_match (AnyRun # r) (x # xs) =
     (rx_match r (x # xs) \<or> (\<not> lineTerminator x \<and> rx_match (AnyRun # r) xs))"
| "rx_match (OptSlash # r) [] = rx_match r []"
| "rx_match (OptSlash # r) (x # xs) =
     (rx_match r (x # xs) \<or> (x = CHR ''/'' \<and> rx_match r xs))"

definition globSpecial :: "char set" where
  "globSpecial = set ''()|+@!?[]{},''"

fun glob_rx :: "string \<Rightarrow> rx list option" where
  "glob_rx [] = Some []"
| "glob_rx (c # cs) =
     (if c \<in> globSpecial then None
      else map_option
             (\<lambda>r. (if c = CHR ''*'' then AnyRun
                   else if c = CHR ''/'' \<and> startsWith cs ''/'' then OptSlash
                   else Lit c) # r)
             (glob_rx cs))"

definition glob_test :: "string \<Rightarrow> error + (string \<Rightarrow> bool)" where
  "glob_test glob = (case glob_rx glob of None \<Rightarrow> Inl SyntaxError | Some r \<Rightarrow> Inr (rx_match r))"

text \<open>A glob compiler reads the patterns of the fragment as above.\<close>

definition readsGlobs :: "(string \<Rightarrow> error + (string \<Rightarrow> bool)) \<Rightarrow> bool" where
  "readsGlobs g =
     (\<forall>glob r. glob_rx glob = Some r \<longrightarrow> (\<exists>t. g glob = Inr t \<and> (\<forall>p. t p = rx_match r p)))"

text \<open>
  The project tree of the example: \<open>/proj/tsconfig.json\<close> with base path \<open>/proj/src\<close> and the
  alias \<open>@utils/*\<close>, \<open>/proj/a/tsconfig.json\<close> with base path \<open>/proj/a/src\<close>, no alias map and
  \<open>include: ["src"]\<close>, \<open>exclude: ["src/generated"]\<close>, and \<open>/proj/broken/tsconfig.json\<close>, which
  does not load. The files are \<open>/proj/src/utils/format.ts\<close> and \<open>/proj/a/src/lib/x.ts\<close>.
\<close>

definition failedConfig :: config where
  "failedConfig =
     \<lparr>resultType = Failed, absoluteBaseUrl = [], paths = None, mainFields = None,
      addMatchAll = None, configFileAbsolutePath = []\<rparr>"

definition example_loadConfig :: "string \<Rightarrow> config" where
  "example_loadConfig p =
     (if p = ''/proj/tsconfig.json'' then
        \<lparr>resultType = Success, absoluteBaseUrl = ''/proj/src'',
         paths = Some [(''@utils/*'', [''utils/*''])], mainFields = None,
         addMatchAll = None, configFileAbsolutePath = ''/proj/tsconfig.json''\<rparr>
      else if p = ''/proj/a/tsconfig.json'' then
        \<lparr>resultType = Success, absoluteBaseUrl = ''/proj/a/src'',
         paths = None, mainFields = None,
         addMatchAll = None, configFileAbsolutePath = ''/proj/a/tsconfig.json''\<rparr>
      else failedConfig)"

definition example_loadTsconfig :: "string \<Rightarrow> tsconfig option" where
  "example_loadTsconfig p =
     (if p = ''/proj/tsconfig.json'' then
        Some \<lparr>ts_include = None, ts_exclude = None,
              ts_compilerOptions = Some \<lparr>raw_allowJs = None, raw_checkJs = None\<rparr>\<rparr>
      else if p = ''/proj/a/tsconfig.json'' then
        Some \<lparr>ts_include = Some [''src''], ts_exclude = Some [''src/generated''],
              ts_compilerOptions = Some \<lparr>raw_allowJs = Some True, raw_checkJs = None\<rparr>\<rparr>
      else None)"

definition example_createMatchPathAsync ::
  "string \<Rightarrow> (string \<times> string list) list \<Rightarrow> string list \<Rightarrow> bool option
     \<Rightarrow> string \<Rightarrow> string list \<Rightarrow> string option" where
  "example_createMatchPathAsync base ps fieldNames matchAll ident extensions =
     (if base = ''/proj/src'' \<and> ps = [(''@utils/*'', [''utils/*''])] \<and> ident = ''@utils/format''
         \<and> ''.ts'' \<in> set extensions
      then Some ''/proj/src/utils/format'' else None)"

definition example_viteResolve :: "string \<Rightarrow> string \<Rightarrow> string option" where
  "example_viteResolve p importer =
     (if p = ''/proj/src/utils/format'' then Some ''/proj/src/utils/format.ts''
      else if p = ''/proj/a/src/lib/x'' then Some ''/proj/a/src/lib/x.ts''
      else None)"

definition exampleEnv :: env where
  "exampleEnv =
     \<lparr>dirname = posix_dirname, isAbsolute = posix_isAbsolute, join = posix_join,
      resolve = posix_resolve ''/proj'', normalizePath = posix_normalize,
      loadConfig = example_loadConfig, loadTsconfig = example_loadTsconfig,
      createMatchPathAsync = example_createMatchPathAsync,
      crawl = (\<lambda>root. [''tsconfig.json'', ''broken/tsconfig.json'', ''a/tsconfig.json'']),
      globRex = glob_test, viteResolve = example_viteResolve\<rparr>"

text \<open>The resolver of \<open>/proj/tsconfig.json\<close> and the resolver of \<open>/proj/a/tsconfig.json\<close>
  without its inclusion filter, before any call.\<close>

definition exampleResolver :: resolver where
  "exampleResolver =
     \<lparr>r_root = ''/proj/'', r_config = example_loadConfig ''/proj/tsconfig.json'',
      r_isIncluded = (\<lambda>path. True), r_importerExtRE = TypeScriptOnly, resolved = Map.empty\<rparr>"

definition exampleResolverA :: resolver where
  "exampleResolverA =
     \<lparr>r_root = ''/proj/a/'', r_config = example_loadConfig ''/proj/a/tsconfig.json'',
      r_isIncluded = (\<lambda>path. True), r_importerExtRE = ScriptLike, resolved = Map.empty\<rparr>"

definition noOptions :: pluginOptions where
  "noOptions = \<lparr>opt_root = None, opt_projects = None, opt_extensions = None, opt_loose = None\<rparr>"

section \<open>Auxiliary facts\<close>

lemma mapE_Inr: "mapE f xs = Inr ys \<Longrightarrow> list_all2 (\<lambda>x y. f x = Inr y) xs ys"
  by (induction xs arbitrary: ys) (auto split: sum.splits)

lemma mapE_total: "(\<forall>x \<in> set xs. \<exists>y. f x = Inr y) \<Longrightarrow> \<exists>ys. mapE f xs = Inr ys"
  by (induction xs) (auto split: sum.splits)

lemma compiled_some:
  assumes "mapE (compileGlob E) gs = Inr ts"
  shows "(\<exists>t \<in> set ts. t path) = (\<exists>g \<in> set gs. globMatches E g path)"
proof -
  have "list_all2 (\<lambda>g t. compileGlob E g = Inr t) gs ts"
    using assms by (rule mapE_Inr)
  then show ?thesis
    by (induction rule: list_all2_induct) (auto simp: globMatches_def)
qed

lemma compiled_empty: "mapE f gs = Inr ts \<Longrightarrow> (ts = []) = (gs = [])"
  by (drule mapE_Inr) auto

lemma example_first_call:
  "resolver_call exampleEnv requiredExts exampleResolver ''@utils/format'' ''/proj/src/main.ts''
     = (Some ''/proj/src/utils/format.ts'',
        exampleResolver\<lparr>resolved := [''@utils/format'' \<mapsto> ''/proj/src/utils/format.ts'']\<rparr>,
        [MatchPath ''@utils/format'',
         ViteResolve ''/proj/src/utils/format'' ''/proj/src/main.ts''])"
  by (simp add: resolver_call_def exampleResolver_def isLocalDescendant_def nodeModulesRE_def
      startsWith_def endsWith_def Let_def resolver_resolveId_def resolveWithPaths_def
      matchPathOf_def exampleEnv_def example_loadConfig_def example_createMatchPathAsync_def
      requiredExts_def example_viteResolve_def posix_normalize_def posix_isAbsolute_def)

section \<open>The gate of the orchestrator\<close>

text \<open>
  Claim C1. When the specifier starts with \<open>./\<close> or \<open>../\<close>, or is an absolute path, or when
  there is no importer (it is undefined or empty), the plugin's \<open>resolveId\<close> returns nothing,
  calls no resolver (so no alias matching and no host resolution happens) and leaves every
  resolver as it was.
\<close>

theorem resolveId_gate:
  "startsWith ident ''./'' \<or> startsWith ident ''../'' \<or> isAbsolute E ident
     \<or> importer = None \<or> importer = Some [] \<Longrightarrow>
   resolveId E extensions resolvers ident importer = (None, resolvers, []) \<and>
   consulted (snd (snd (resolveId E extensions resolvers ident importer))) = []"
  by (auto simp: resolveId_def relativeImportRE_def)

theorem resolveId_gate_witness:
  "startsWith ''./format'' ''./'' \<and>
   resolveId exampleEnv requiredExts [exampleResolverA, exampleResolver] ''./format''
       (Some ''/proj/src/main.ts'')
     = (None, [exampleResolverA, exampleResolver], [])"
  using resolveId_gate [of "''./format''" exampleEnv "Some ''/proj/src/main.ts''" requiredExts
      "[exampleResolverA, exampleResolver]"]
  by (simp add: startsWith_def)

section \<open>Importers a resolver does not own\<close>

text \<open>
  Claim C2, as the code has it. When the importer does not start with the resolver's root,
  or the rest of its path after the root contains \<open>/node_modules/\<close>, the call makes no
  resolution attempt and stores nothing: the resolver is unchanged. What it returns is the
  entry of its cache for the specifier if the importer passes the extension gate, so it
  returns nothing whenever no result for that specifier was stored before.
\<close>

theorem resolver_call_not_local:
  "\<not> startsWith importer (r_root r) \<or>
     occursIn ''/node_modules/'' (drop (length (r_root r)) importer) \<Longrightarrow>
   resolver_call E extensions r ident importer =
     (if importerExtRE_test (r_importerExtRE r) importer then resolved r ident else None, r, [])"
  by (auto simp: resolver_call_def isLocalDescendant_def nodeModulesRE_def Let_def)

theorem resolver_call_not_local_witness:
  "occursIn ''/node_modules/''
     (drop (length (r_root exampleResolver)) ''/proj/src/node_modules/pkg/index.ts'') \<and>
   resolver_call exampleEnv requiredExts exampleResolver ''@utils/format''
       ''/proj/src/node_modules/pkg/index.ts''
     = (None, exampleResolver, [])"
proof -
  have h: "occursIn ''/node_modules/''
      (drop (length (r_root exampleResolver)) ''/proj/src/node_modules/pkg/index.ts'')"
    by (simp add: exampleResolver_def startsWith_def)
  have c: "resolved exampleResolver ''@utils/format'' = None"
    by (simp add: exampleResolver_def)
  show ?thesis
    using h resolver_call_not_local [of "''/proj/src/node_modules/pkg/index.ts''" exampleResolver
        exampleEnv requiredExts "''@utils/format''"] c
    by simp
qed

text \<open>
  Against claim C2 as stated: after \<open>@utils/format\<close> has been resolved for
  \<open>/proj/src/main.ts\<close>, the same resolver, asked for the same specifier by
  \<open>/elsewhere/main.ts\<close> outside its root, returns the stored result.
\<close>

theorem cached_result_outside_root:
  "\<not> startsWith ''/elsewhere/main.ts'' ''/proj/'' \<and>
   r_root (fst (snd (resolver_call exampleEnv requiredExts exampleResolver ''@utils/format''
                   ''/proj/src/main.ts''))) = ''/proj/'' \<and>
   fst (resolver_call exampleEnv requiredExts
          (fst (snd (resolver_call exampleEnv requiredExts exampleResolver ''@utils/format''
                       ''/proj/src/main.ts'')))
          ''@utils/format'' ''/elsewhere/main.ts'')
     = Some ''/proj/src/utils/format.ts''"
  by (simp add: example_first_call)
    (simp add: resolver_call_def exampleResolver_def isLocalDescendant_def startsWith_def
      endsWith_def)

text \<open>
  The root's own \<open>node_modules\<close>: the root ends with the separator that \<open>nodeModulesRE\<close>
  looks for, so the rest of the path starts with \<open>node_modules/\<close> and the importer counts as
  a local descendant.
\<close>

lemma root_node_modules_is_local:
  "isLocalDescendant ''/proj/node_modules/pkg/index.js'' ''/proj/'' \<and>
   \<not> isLocalDescendant ''/proj/src/node_modules/pkg/index.js'' ''/proj/'' \<and>
   fst (resolver_call exampleEnv requiredExts (exampleResolver\<lparr>r_importerExtRE := ScriptLike\<rparr>)
          ''@utils/format'' ''/proj/node_modules/pkg/index.js'')
     = Some ''/proj/src/utils/format.ts''"
  by code_simp

section \<open>The implicit extensions\<close>

text \<open>
  Claim C4, as the code has it. The extensions given by the user come first and the required
  extensions \<open>.ts\<close>, \<open>.tsx\<close>, \<open>.js\<close>, \<open>.jsx\<close>, \<open>.mjs\<close> follow them in that order; without the
  option the list is exactly the required extensions.
\<close>

theorem getFileExtensions_order:
  "getFileExtensions (Some exts) = exts @ [''.ts'', ''.tsx'', ''.js'', ''.jsx'', ''.mjs''] \<and>
   getFileExtensions None = [''.ts'', ''.tsx'', ''.js'', ''.jsx'', ''.mjs'']"
  by (simp add: getFileExtensions_def requiredExts_def)

text \<open>Against claim C4 as stated: \<open>.vue\<close> given by the user is first, not last.\<close>

theorem getFileExtensions_user_first:
  "getFileExtensions (Some [''.vue'']) = [''.vue'', ''.ts'', ''.tsx'', ''.js'', ''.jsx'', ''.mjs''] \<and>
   getFileExtensions (Some [''.vue'']) \<noteq> [''.ts'', ''.tsx'', ''.js'', ''.jsx'', ''.mjs''] @ [''.vue'']"
  by (simp add: getFileExtensions_def requiredExts_def)

section \<open>The inclusion filter\<close>

text \<open>
  Claim C5. Whenever every pattern compiles, \<open>getIncluder\<close> returns a filter. The filter
  accepts every path if both lists are empty; otherwise it accepts a path exactly when the
  include list is empty or one of its patterns matches the path, and the exclude list is
  empty or none of its patterns matches the path. So a path matched by an exclude pattern is
  rejected whatever the include list says.
\<close>

theorem getIncluder_truth_table:
  "(let inc = patterns (co_include co); exc = patterns (co_exclude co) in
     ((\<forall>g \<in> set (inc @ exc). \<exists>t. compileGlob E g = Inr t) \<longrightarrow> (\<exists>f. getIncluder E co = Inr f)) \<and>
     (\<forall>f. getIncluder E co = Inr f \<longrightarrow>
        (f path = (if inc = [] \<and> exc = [] then True
                   else (inc = [] \<or> (\<exists>g \<in> set inc. globMatches E g path)) \<and>
                        (exc = [] \<or> \<not> (\<exists>g \<in> set exc. globMatches E g path)))) \<and>
        ((\<exists>g \<in> set exc. globMatches E g path) \<longrightarrow> \<not> f path)))"
proof -
  define inc where "inc = patterns (co_include co)"
  define exc where "exc = patterns (co_exclude co)"
  have total: "\<exists>f. getIncluder E co = Inr f"
    if "\<forall>g \<in> set (inc @ exc). \<exists>t. compileGlob E g = Inr t"
  proof -
    from that obtain ts where ts: "mapE (compileGlob E) inc = Inr ts"
      using mapE_total [of inc "compileGlob E"] by auto
    from that obtain us where us: "mapE (compileGlob E) exc = Inr us"
      using mapE_total [of exc "compileGlob E"] by auto
    show ?thesis
      using ts us by (simp add: getIncluder_def Let_def inc_def [symmetric] exc_def [symmetric])
  qed
  have table: "f path = (if inc = [] \<and> exc = [] then True
                   else (inc = [] \<or> (\<exists>g \<in> set inc. globMatches E g path)) \<and>
                        (exc = [] \<or> \<not> (\<exists>g \<in> set exc. globMatches E g path)))"
    if f: "getIncluder E co = Inr f" for f
  proof (cases "inc = [] \<and> exc = []")
    case True
    then show ?thesis
      using f by (auto simp: getIncluder_def Let_def inc_def [symmetric] exc_def [symmetric])
  next
    case False
    then obtain ts us where ts: "mapE (compileGlob E) inc = Inr ts"
      and us: "mapE (compileGlob E) exc = Inr us"
      and f_eq: "f = (\<lambda>path. (ts = [] \<or> (\<exists>glob \<in> set ts. glob path)) \<and>
                              (us = [] \<or> \<not> (\<exists>glob \<in> set us. glob path)))"
      using f
      by (auto simp: getIncluder_def Let_def inc_def [symmetric] exc_def [symmetric]
          split: sum.splits if_splits)
    show ?thesis
      using False
      by (simp add: f_eq compiled_some [OF ts] compiled_some [OF us]
          compiled_empty [OF ts] compiled_empty [OF us])
  qed
  have override: "\<not> f path"
    if "getIncluder E co = Inr f" and "\<exists>g \<in> set exc. globMatches E g path" for f
    using table [OF that(1)] that(2) by auto
  show ?thesis
    unfolding Let_def inc_def [symmetric] exc_def [symmetric]
    using total table override by blast
qed

theorem getIncluder_truth_table_witness:
  "(\<exists>t. compileGlob exampleEnv ''lib*'' = Inr t) \<and>
   (\<exists>t. compileGlob exampleEnv ''lib/vendor'' = Inr t) \<and>
   globMatches exampleEnv ''lib*'' ''lib/vendor/a.ts'' \<and>
   globMatches exampleEnv ''lib/vendor'' ''lib/vendor/a.ts'' \<and>
   (\<exists>f. getIncluder exampleEnv
          \<lparr>co_include = Some [''lib*''], co_exclude = Some [''lib/vendor''], co_allowJs = False\<rparr>
        = Inr f \<and> \<not> f ''lib/vendor/a.ts'')"
proof -
  let ?co = "\<lparr>co_include = Some [''lib*''], co_exclude = Some [''lib/vendor''], co_allowJs = False\<rparr>"
  have c1: "\<exists>t. compileGlob exampleEnv ''lib*'' = Inr t"
    by (simp add: compileGlob_def exampleEnv_def glob_test_def endsWith_def globSpecial_def
        startsWith_def)
  have c2: "\<exists>t. compileGlob exampleEnv ''lib/vendor'' = Inr t"
    by (simp add: compileGlob_def exampleEnv_def glob_test_def endsWith_def globSpecial_def
        startsWith_def)
  have m1: "globMatches exampleEnv ''lib*'' ''lib/vendor/a.ts''"
    by (simp add: globMatches_def compileGlob_def exampleEnv_def glob_test_def endsWith_def
        globSpecial_def startsWith_def lineTerminator_def)
  have m2: "globMatches exampleEnv ''lib/vendor'' ''lib/vendor/a.ts''"
    by (simp add: globMatches_def compileGlob_def exampleEnv_def glob_test_def endsWith_def
        globSpecial_def startsWith_def lineTerminator_def)
  have "\<exists>f. getIncluder exampleEnv ?co = Inr f \<and> \<not> f ''lib/vendor/a.ts''"
    using getIncluder_truth_table [of ?co exampleEnv "''lib/vendor/a.ts''"] c1 c2 m2
    by (simp add: patterns_def Let_def) blast
  with c1 c2 m1 m2 show ?thesis by blast
qed

section \<open>Calling a resolver twice\<close>







section \<open>Alias resolution and the base path\<close>

lemma resolver_call_eligible:
  assumes "importerExtRE_test (r_importerExtRE r) importer" "\<not> truthy (resolved r ident)"
    "isLocalDescendant importer (r_root r)" "r_isIncluded r (drop (length (r_root r)) importer)"
  shows "fst (resolver_call E extensions r ident importer)
           = fst (resolver_resolveId E extensions (r_config r) ident importer)"
    and "snd (snd (resolver_call E extensions r ident importer))
           = snd (resolver_resolveId E extensions (r_config r) ident importer)"
  using assms by (auto simp: resolver_call_def Let_def split: prod.splits)

lemma exampleResolver_eligible:
  "importerExtRE_test (r_importerExtRE exampleResolver) ''/proj/src/main.ts''"
  "\<not> truthy (resolved exampleResolver ident)"
  "isLocalDescendant ''/proj/src/main.ts'' (r_root exampleResolver)"
  "r_isIncluded exampleResolver (drop (length (r_root exampleResolver)) ''/proj/src/main.ts'')"
  by (simp_all add: exampleResolver_def endsWith_def isLocalDescendant_def startsWith_def
      nodeModulesRE_def)

lemma exampleResolverA_eligible:
  "importerExtRE_test (r_importerExtRE exampleResolverA) ''/proj/a/src/main.ts''"
  "\<not> truthy (resolved exampleResolverA ident)"
  "isLocalDescendant ''/proj/a/src/main.ts'' (r_root exampleResolverA)"
  "r_isIncluded exampleResolverA (drop (length (r_root exampleResolverA)) ''/proj/a/src/main.ts'')"
  by (simp_all add: exampleResolverA_def endsWith_def isLocalDescendant_def startsWith_def
      nodeModulesRE_def)

text \<open>
  Claim C10. Take a call that reaches resolution: the importer passes the extension gate,
  nothing is cached for the specifier, the importer is a local descendant of the root and
  the inclusion filter accepts it. If the configuration has no alias map, or the alias
  matcher gives no path, the specifier joined to the absolute base path is handed to the
  host's resolution with the importer, and its answer is the result. If the alias matcher
  gives a path for which the host's resolution succeeds, that is the result and the base
  path is not tried. (If the host declines the alias path, the base path is tried as well.)
\<close>

theorem base_path_fallback:
  assumes "importerExtRE_test (r_importerExtRE r) importer"
    and "\<not> truthy (resolved r ident)"
    and "isLocalDescendant importer (r_root r)"
    and "r_isIncluded r (drop (length (r_root r)) importer)"
  shows
    "(let config = r_config r;
          candidate = join E (absoluteBaseUrl config) ident;
          out = resolver_call E extensions r ident importer
      in (paths config = None \<longrightarrow>
            fst out = viteResolve E candidate importer \<and>
            snd (snd out) = [ViteResolve candidate importer]) \<and>
         (\<forall>ps. paths config = Some ps \<and> \<not> truthy (matchPathOf E config ps ident extensions) \<longrightarrow>
            fst out = viteResolve E candidate importer \<and>
            snd (snd out) = [MatchPath ident, ViteResolve candidate importer]) \<and>
         (\<forall>ps p. paths config = Some ps \<and> matchPathOf E config ps ident extensions = Some p \<and>
                 p \<noteq> [] \<and> truthy (viteResolve E (normalizePath E p) importer) \<longrightarrow>
            fst out = viteResolve E (normalizePath E p) importer \<and>
            snd (snd out) = [MatchPath ident, ViteResolve (normalizePath E p) importer]) \<and>
         (\<forall>ps p. paths config = Some ps \<and> matchPathOf E config ps ident extensions = Some p \<and>
                 p \<noteq> [] \<and> \<not> truthy (viteResolve E (normalizePath E p) importer) \<longrightarrow>
            fst out = viteResolve E candidate importer \<and>
            snd (snd out) = [MatchPath ident, ViteResolve (normalizePath E p) importer,
                             ViteResolve candidate importer]))"
  unfolding Let_def resolver_call_eligible [OF assms]
  by (auto simp: resolver_resolveId_def resolveWithPaths_def resolveWithBaseUrl_def Let_def)

theorem base_path_fallback_witness:
  "paths (r_config exampleResolverA) = None \<and>
   fst (resolver_call exampleEnv requiredExts exampleResolverA ''lib/x'' ''/proj/a/src/main.ts'')
     = Some ''/proj/a/src/lib/x.ts'' \<and>
   snd (snd (resolver_call exampleEnv requiredExts exampleResolverA ''lib/x''
               ''/proj/a/src/main.ts''))
     = [ViteResolve ''/proj/a/src/lib/x'' ''/proj/a/src/main.ts''] \<and>
   matchPathOf exampleEnv (r_config exampleResolver) [(''@utils/*'', [''utils/*''])] ''@missing''
       requiredExts = None \<and>
   snd (snd (resolver_call exampleEnv requiredExts exampleResolver ''@missing''
               ''/proj/src/main.ts''))
     = [MatchPath ''@missing'', ViteResolve ''/proj/src/@missing'' ''/proj/src/main.ts''] \<and>
   matchPathOf exampleEnv (r_config exampleResolver) [(''@utils/*'', [''utils/*''])]
       ''@utils/format'' requiredExts = Some ''/proj/src/utils/format'' \<and>
   fst (resolver_call exampleEnv requiredExts exampleResolver ''@utils/format''
          ''/proj/src/main.ts'') = Some ''/proj/src/utils/format.ts'' \<and>
   snd (snd (resolver_call exampleEnv requiredExts exampleResolver ''@utils/format''
               ''/proj/src/main.ts''))
     = [MatchPath ''@utils/format'', ViteResolve ''/proj/src/utils/format'' ''/proj/src/main.ts'']"
proof -
  have pA: "paths (r_config exampleResolverA) = None"
    by code_simp
  have p: "paths (r_config exampleResolver) = Some [(''@utils/*'', [''utils/*''])]"
    by code_simp
  have m1: "matchPathOf exampleEnv (r_config exampleResolver) [(''@utils/*'', [''utils/*''])]
      ''@missing'' requiredExts = None"
    by code_simp
  have m2: "matchPathOf exampleEnv (r_config exampleResolver) [(''@utils/*'', [''utils/*''])]
      ''@utils/format'' requiredExts = Some ''/proj/src/utils/format''"
    by code_simp
  have jA: "join exampleEnv (absoluteBaseUrl (r_config exampleResolverA)) ''lib/x''
      = ''/proj/a/src/lib/x''"
    by code_simp
  have j: "join exampleEnv (absoluteBaseUrl (r_config exampleResolver)) ''@missing''
      = ''/proj/src/@missing''"
    by code_simp
  have n: "normalizePath exampleEnv ''/proj/src/utils/format'' = ''/proj/src/utils/format''"
    by code_simp
  have v: "viteResolve exampleEnv ''/proj/src/utils/format'' ''/proj/src/main.ts''
      = Some ''/proj/src/utils/format.ts''"
    "viteResolve exampleEnv ''/proj/a/src/lib/x'' ''/proj/a/src/main.ts''
      = Some ''/proj/a/src/lib/x.ts''"
    by code_simp+
  note A = base_path_fallback [OF exampleResolverA_eligible,
        where ident = "''lib/x''" and E = exampleEnv and extensions = requiredExts,
        unfolded Let_def jA v, THEN conjunct1, rule_format, OF pA]
  note B = base_path_fallback [OF exampleResolver_eligible,
        where ident = "''@missing''" and E = exampleEnv and extensions = requiredExts,
        unfolded Let_def j, THEN conjunct2, THEN conjunct1, rule_format,
        of "[(''@utils/*'', [''utils/*''])]"]
  note C = base_path_fallback [OF exampleResolver_eligible,
        where ident = "''@utils/format''" and E = exampleEnv and extensions = requiredExts,
        unfolded Let_def, THEN conjunct2, THEN conjunct2, THEN conjunct1, rule_format,
        of "[(''@utils/*'', [''utils/*''])]" "''/proj/src/utils/format''"]
  have second: "snd (snd (resolver_call exampleEnv requiredExts exampleResolver ''@missing''
       ''/proj/src/main.ts''))
     = [MatchPath ''@missing'', ViteResolve ''/proj/src/@missing'' ''/proj/src/main.ts'']"
    using B p m1 by simp
  have third: "fst (resolver_call exampleEnv requiredExts exampleResolver ''@utils/format''
          ''/proj/src/main.ts'') = Some ''/proj/src/utils/format.ts'' \<and>
     snd (snd (resolver_call exampleEnv requiredExts exampleResolver ''@utils/format''
               ''/proj/src/main.ts''))
     = [MatchPath ''@utils/format'', ViteResolve ''/proj/src/utils/format'' ''/proj/src/main.ts'']"
    using C p m2 n v by simp
  show ?thesis
    using pA m1 m2 A second third by simp
qed

section \<open>The inclusion scenario\<close>

text \<open>
  Claim C6. \<open>compileGlob\<close> appends \<open>**/*\<close> to \<open>src\<close> and to \<open>src/generated\<close>, and for every
  glob compiler that reads these patterns as wildcard patterns, the filter built from
  \<open>include: ["src"]\<close> and \<open>exclude: ["src/generated"]\<close> accepts \<open>src/app.ts\<close>, rejects
  \<open>src/generated/x.ts\<close> and rejects \<open>lib/app.ts\<close>.
\<close>

theorem inclusion_scenario:
  assumes "readsGlobs (globRex E)"
  shows "compileGlob E ''src'' = globRex E ''src**/*'' \<and>
         compileGlob E ''src/generated'' = globRex E ''src/generated**/*'' \<and>
         (\<exists>f. getIncluder E \<lparr>co_include = Some [''src''], co_exclude = Some [''src/generated''],
                              co_allowJs = allowJs\<rparr> = Inr f \<and>
              f ''src/app.ts'' \<and> \<not> f ''src/generated/x.ts'' \<and> \<not> f ''lib/app.ts'')"
proof -
  have c1: "compileGlob E ''src'' = globRex E ''src**/*''"
    and c2: "compileGlob E ''src/generated'' = globRex E ''src/generated**/*''"
    by (simp_all add: compileGlob_def endsWith_def)
  obtain r1 where r1: "glob_rx ''src**/*'' = Some r1"
    and m1: "rx_match r1 ''src/app.ts''" "rx_match r1 ''src/generated/x.ts''"
      "\<not> rx_match r1 ''lib/app.ts''"
    by (simp add: globSpecial_def startsWith_def lineTerminator_def)
  obtain r2 where r2: "glob_rx ''src/generated**/*'' = Some r2"
    and m2: "\<not> rx_match r2 ''src/app.ts''" "rx_match r2 ''src/generated/x.ts''"
    by (simp add: globSpecial_def startsWith_def lineTerminator_def)
  obtain t1 where t1: "globRex E ''src**/*'' = Inr t1" "\<And>p. t1 p = rx_match r1 p"
    using assms r1 unfolding readsGlobs_def by blast
  obtain t2 where t2: "globRex E ''src/generated**/*'' = Inr t2" "\<And>p. t2 p = rx_match r2 p"
    using assms r2 unfolding readsGlobs_def by blast
  have "getIncluder E \<lparr>co_include = Some [''src''], co_exclude = Some [''src/generated''],
            co_allowJs = allowJs\<rparr>
        = Inr (\<lambda>path. ([t1] = [] \<or> (\<exists>glob \<in> set [t1]. glob path)) \<and>
                       ([t2] = [] \<or> \<not> (\<exists>glob \<in> set [t2]. glob path)))"
    by (simp add: getIncluder_def patterns_def c1 c2 t1(1) t2(1))
  then show ?thesis
    using c1 c2 m1 m2 by (simp add: t1(2) t2(2))
qed

theorem inclusion_scenario_witness:
  "readsGlobs (globRex exampleEnv) \<and>
   (\<exists>f. getIncluder exampleEnv \<lparr>co_include = Some [''src''], co_exclude = Some [''src/generated''],
                                 co_allowJs = False\<rparr> = Inr f \<and>
        f ''src/app.ts'' \<and> \<not> f ''src/generated/x.ts'' \<and> \<not> f ''lib/app.ts'')"
proof -
  have h: "readsGlobs (globRex exampleEnv)"
    by (simp add: readsGlobs_def exampleEnv_def glob_test_def)
  show ?thesis
    using h inclusion_scenario [OF h, of False] by blast
qed

section \<open>Project discovery\<close>

lemma depthMap_fold:
  "fold (\<lambda>p m. m(p \<mapsto> depth p)) ps m q = (if q \<in> set ps then Some (depth q) else m q)"
  by (induction ps arbitrary: m) auto

lemma insort_key_cong_set:
  "f x = g x \<Longrightarrow> (\<forall>y \<in> set ys. f y = g y) \<Longrightarrow> insort_key f x ys = insort_key g x ys"
  by (induction ys) auto

lemma sort_key_cong_set: "(\<forall>x \<in> set xs. f x = g x) \<Longrightarrow> sort_key f xs = sort_key g xs"
  by (induction xs) (auto intro: insort_key_cong_set)

lemma findProjects_sort:
  "findProjects E viteRoot opts = sort_key (\<lambda>p. - depth p) (resolvedProjects E viteRoot opts)"
  unfolding findProjects_def resolvedProjects_def listedProjects_def findProjects_root_def Let_def
  by (rule sort_key_cong_set) (simp add: depthOf_def depthMap_fold)

lemma findProjects_sorted: "sorted_wrt (\<lambda>a b. depth b \<le> depth a) (findProjects E viteRoot opts)"
proof -
  have "sorted (map (\<lambda>p. - depth p) (findProjects E viteRoot opts))"
    unfolding findProjects_sort by (rule sorted_sort_key)
  then show ?thesis
    by (simp add: sorted_map)
qed

text \<open>
  Claim C8, as the code has it. \<open>findProjects\<close> resolves every listed or crawled path
  against the root and returns all of them ordered by depth. Nothing is removed: the result
  is a rearrangement of the resolved paths, as long as the list it started from, and a path
  occurs in it as often as among the resolved paths.
\<close>

theorem findProjects_keeps_duplicates:
  "mset (findProjects E viteRoot opts) = mset (resolvedProjects E viteRoot opts) \<and>
   length (findProjects E viteRoot opts) = length (listedProjects E viteRoot opts) \<and>
   count_list (findProjects E viteRoot opts) p = count_list (resolvedProjects E viteRoot opts) p"
proof -
  have m: "mset (findProjects E viteRoot opts) = mset (resolvedProjects E viteRoot opts)"
    by (simp add: findProjects_sort)
  have "count (mset (findProjects E viteRoot opts)) p = count (mset (resolvedProjects E viteRoot opts)) p"
    by (simp only: m)
  then have c: "count_list (findProjects E viteRoot opts) p = count_list (resolvedProjects E viteRoot opts) p"
    by (simp only: count_mset)
  have "length (findProjects E viteRoot opts) = length (resolvedProjects E viteRoot opts)"
    by (simp add: findProjects_sort)
  then show ?thesis
    using m c by (simp add: resolvedProjects_def)
qed

text \<open>
  Against claim C8 as stated: \<open>tsconfig.json\<close> and \<open>./tsconfig.json\<close> resolve to the same
  path, and the result contains it twice.
\<close>

theorem duplicate_project_kept:
  "count_list (findProjects exampleEnv ''/proj''
       (noOptions\<lparr>opt_projects := Some [''tsconfig.json'', ''./tsconfig.json'']\<rparr>))
     ''/proj/tsconfig.json'' = 2"
  by code_simp

section \<open>Configurations that do not load\<close>

lemma createResolver_unusable: "\<not> usable E p \<Longrightarrow> createResolver E opts p = Inr None"
  by (simp add: createResolver_def usable_def Let_def)

lemma createResolver_usable:
  "usable E p \<Longrightarrow> createResolver E opts p = Inr ro \<Longrightarrow>
   \<exists>r. ro = Some r \<and> r_root r = rootOf E p \<and> r_config r = configOf E p \<and> resolved r = Map.empty"
  by (auto simp: createResolver_def usable_def Let_def split: sum.splits)

lemma createResolvers_Nil: "createResolvers E opts [] = Inr []"
  by (simp add: createResolvers_def map_filter_simps)

lemma createResolvers_Cons:
  "createResolvers E opts (p # ps) =
     (case createResolver E opts p of
        Inl e \<Rightarrow> Inl e
      | Inr ro \<Rightarrow>
          (case createResolvers E opts ps of
             Inl e \<Rightarrow> Inl e
           | Inr rs \<Rightarrow> Inr (case ro of None \<Rightarrow> rs | Some r \<Rightarrow> r # rs)))"
  by (simp add: createResolvers_def map_filter_simps split: sum.splits option.splits)

lemma createResolvers_filter:
  "createResolvers E opts ps = createResolvers E opts (filter (usable E) ps)"
proof (induction ps)
  case Nil
  show ?case by simp
next
  case (Cons p ps)
  show ?case
  proof (cases "usable E p")
    case True
    then show ?thesis
      by (simp add: createResolvers_Cons Cons.IH [symmetric] cong: sum.case_cong)
  next
    case False
    then show ?thesis
      using createResolver_unusable [of E p opts]
      by (simp add: createResolvers_Cons Cons.IH [symmetric] split: sum.splits)
  qed
qed

lemma createResolvers_roots:
  "createResolvers E opts ps = Inr rs \<Longrightarrow>
   map r_root rs = map (rootOf E) (filter (usable E) ps) \<and>
   map r_config rs = map (configOf E) (filter (usable E) ps)"
proof (induction ps arbitrary: rs)
  case Nil
  then show ?case by (simp add: createResolvers_Nil)
next
  case (Cons p ps)
  from Cons.prems obtain ro rs' where ro: "createResolver E opts p = Inr ro"
    and rs': "createResolvers E opts ps = Inr rs'"
    and rs: "rs = (case ro of None \<Rightarrow> rs' | Some r \<Rightarrow> r # rs')"
    by (auto simp: createResolvers_Cons split: sum.splits)
  show ?case
  proof (cases "usable E p")
    case True
    then show ?thesis
      using createResolver_usable [OF True ro] Cons.IH [OF rs'] rs by auto
  next
    case False
    then show ?thesis
      using createResolver_unusable [OF False, of opts] ro Cons.IH [OF rs'] rs by auto
  qed
qed

lemma createResolvers_total:
  "(\<forall>p \<in> set ps. usable E p \<longrightarrow> (\<exists>r. createResolver E opts p = Inr (Some r))) \<Longrightarrow>
   \<exists>rs. createResolvers E opts ps = Inr rs"
proof (induction ps)
  case Nil
  show ?case by (simp add: createResolvers_Nil)
next
  case (Cons p ps)
  then obtain rs where rs: "createResolvers E opts ps = Inr rs" by auto
  show ?case
  proof (cases "usable E p")
    case True
    then obtain r where "createResolver E opts p = Inr (Some r)" using Cons.prems by auto
    then show ?thesis using rs by (simp add: createResolvers_Cons)
  next
    case False
    then show ?thesis
      using createResolver_unusable [OF False, of opts] rs by (simp add: createResolvers_Cons)
  qed
qed

text \<open>
  Claim C9. For a project path whose configuration has the result type \<open>failed\<close>,
  \<open>createResolver\<close> returns \<open>null\<close> without an error, and the list of resolvers is the
  same as if the path had not been listed: the resolvers are those of the other paths, in
  their order, each with its own root and configuration, and building the list succeeds
  whenever building the resolver of each of the other paths does.
\<close>

theorem failed_config_dropped:
  "(\<not> usable E p \<longrightarrow> createResolver E opts p = Inr None) \<and>
   createResolvers E opts ps = createResolvers E opts (filter (usable E) ps) \<and>
   (\<forall>rs. createResolvers E opts ps = Inr rs \<longrightarrow>
      map r_root rs = map (rootOf E) (filter (usable E) ps) \<and>
      map r_config rs = map (configOf E) (filter (usable E) ps)) \<and>
   ((\<forall>p \<in> set ps. usable E p \<longrightarrow> (\<exists>r. createResolver E opts p = Inr (Some r))) \<longrightarrow>
      (\<exists>rs. createResolvers E opts ps = Inr rs))"
  using createResolver_unusable [of E p opts] createResolvers_filter [of E opts ps]
    createResolvers_roots [of E opts ps] createResolvers_total [of ps E opts]
  by blast

theorem failed_config_dropped_witness:
  "\<not> usable exampleEnv ''/proj/broken/tsconfig.json'' \<and>
   createResolver exampleEnv noOptions ''/proj/broken/tsconfig.json'' = Inr None \<and>
   (\<exists>rs. createResolvers exampleEnv noOptions
            [''/proj/broken/tsconfig.json'', ''/proj/a/tsconfig.json'', ''/proj/tsconfig.json'']
          = Inr rs \<and>
        map r_root rs = [''/proj/a/'', ''/proj/''])"
proof -
  let ?ps = "[''/proj/broken/tsconfig.json'', ''/proj/a/tsconfig.json'', ''/proj/tsconfig.json'']"
  note T = failed_config_dropped [of exampleEnv "''/proj/broken/tsconfig.json''" noOptions ?ps]
  have u: "\<not> usable exampleEnv ''/proj/broken/tsconfig.json''"
    by code_simp
  have "case createResolver exampleEnv noOptions ''/proj/a/tsconfig.json'' of
          Inr (Some r) \<Rightarrow> True | _ \<Rightarrow> False"
    by code_simp
  then have a: "\<exists>r. createResolver exampleEnv noOptions ''/proj/a/tsconfig.json'' = Inr (Some r)"
    by (auto split: sum.splits option.splits)
  have "case createResolver exampleEnv noOptions ''/proj/tsconfig.json'' of
          Inr (Some r) \<Rightarrow> True | _ \<Rightarrow> False"
    by code_simp
  then have b: "\<exists>r. createResolver exampleEnv noOptions ''/proj/tsconfig.json'' = Inr (Some r)"
    by (auto split: sum.splits option.splits)
  have all: "\<forall>p \<in> set ?ps. usable exampleEnv p \<longrightarrow>
      (\<exists>r. createResolver exampleEnv noOptions p = Inr (Some r))"
    using u a b by simp
  have roots: "map (rootOf exampleEnv) (filter (usable exampleEnv) ?ps) = [''/proj/a/'', ''/proj/'']"
    by code_simp
  have n: "createResolver exampleEnv noOptions ''/proj/broken/tsconfig.json'' = Inr None"
    using T [THEN conjunct1] u by (rule mp)
  obtain rs where rs: "createResolvers exampleEnv noOptions ?ps = Inr rs"
    using mp [OF T [THEN conjunct2, THEN conjunct2, THEN conjunct2] all] by (rule exE)
  have "map r_root rs = map (rootOf exampleEnv) (filter (usable exampleEnv) ?ps)"
    using T [THEN conjunct2, THEN conjunct2, THEN conjunct1, rule_format, OF rs]
    by (rule conjunct1)
  then have r: "map r_root rs = [''/proj/a/'', ''/proj/'']"
    by (simp only: roots)
  from rs r have "\<exists>rs. createResolvers exampleEnv noOptions ?ps = Inr rs \<and>
      map r_root rs = [''/proj/a/'', ''/proj/'']"
    by (intro exI conjI)
  with u n show ?thesis
    by (intro conjI)
qed

section \<open>Deeper projects first\<close>

lemma consulted_append: "consulted (xs @ ys) = consulted xs @ consulted ys"
  by (induction xs rule: consulted.induct) auto

lemma consulted_resolver_resolveId:
  "consulted (snd (resolver_resolveId E extensions config ident importer)) = []"
  by (auto simp: resolver_resolveId_def resolveWithPaths_def resolveWithBaseUrl_def Let_def
      split: option.splits prod.splits if_splits)

lemma consulted_resolver_call:
  "consulted (snd (snd (resolver_call E extensions r ident importer))) = []"
  using consulted_resolver_resolveId [of E extensions "r_config r" ident importer]
  by (auto simp: resolver_call_def Let_def split: prod.splits)

lemma resolveLoop_Cons:
  "resolveLoop E extensions ident importer (r # rs) =
     (if truthy (fst (resolver_call E extensions r ident importer))
      then (fst (resolver_call E extensions r ident importer),
            fst (snd (resolver_call E extensions r ident importer)) # rs,
            Consult (r_root r) # snd (snd (resolver_call E extensions r ident importer)))
      else (fst (resolveLoop E extensions ident importer rs),
            fst (snd (resolver_call E extensions r ident importer))
              # fst (snd (resolveLoop E extensions ident importer rs)),
            Consult (r_root r) # snd (snd (resolver_call E extensions r ident importer))
              @ snd (snd (resolveLoop E extensions ident importer rs))))"
  by (simp add: Let_def split: prod.splits)

lemma resolveLoop_consulted:
  "(let cs = consulted (snd (snd (resolveLoop E extensions ident importer rs))) in
      cs = map r_root (take (length cs) rs) \<and>
      (\<forall>i < length rs. truthy (fst (resolver_call E extensions (rs ! i) ident importer))
          \<longrightarrow> length cs \<le> Suc i) \<and>
      (length cs = length rs \<or>
       (0 < length cs \<and>
        truthy (fst (resolver_call E extensions (rs ! (length cs - 1)) ident importer)))))"
proof (induction rs)
  case Nil
  show ?case by simp
next
  case (Cons r rs)
  let ?cs = "consulted (snd (snd (resolveLoop E extensions ident importer rs)))"
  show ?case
  proof (cases "truthy (fst (resolver_call E extensions r ident importer))")
    case True
    then show ?thesis
      by (simp add: resolveLoop_Cons consulted_resolver_call Let_def del: resolveLoop.simps)
  next
    case False
    have cs: "consulted (snd (snd (resolveLoop E extensions ident importer (r # rs))))
        = r_root r # ?cs"
      using False
      by (simp add: resolveLoop_Cons consulted_resolver_call consulted_append
          del: resolveLoop.simps)
    have a: "r_root r # ?cs = map r_root (take (length (r_root r # ?cs)) (r # rs))"
      using Cons.IH by (simp add: Let_def)
    have b: "length (r_root r # ?cs) \<le> Suc i"
      if "i < length (r # rs)"
        and "truthy (fst (resolver_call E extensions ((r # rs) ! i) ident importer))" for i
    proof (cases i)
      case 0
      then show ?thesis using that False by simp
    next
      case (Suc k)
      then show ?thesis using that Cons.IH by (simp add: Let_def)
    qed
    have c: "length (r_root r # ?cs) = length (r # rs) \<or>
       (0 < length (r_root r # ?cs) \<and>
        truthy (fst (resolver_call E extensions ((r # rs) ! (length (r_root r # ?cs) - 1))
                       ident importer)))"
    proof (cases "length ?cs = length rs")
      case True
      then show ?thesis by simp
    next
      case False
      then have "0 < length ?cs"
        and "truthy (fst (resolver_call E extensions (rs ! (length ?cs - 1)) ident importer))"
        using Cons.IH by (simp_all add: Let_def)
      then show ?thesis by (cases "length ?cs") simp_all
    qed
    show ?thesis
      unfolding Let_def cs using a b c by blast
  qed
qed

lemma length_split_on: "length (split_on c s) = Suc (length (filter (\<lambda>x. x = c) s))"
  by (induction s) (auto split: list.splits)

lemma endsWith_append: "endsWith f e \<Longrightarrow> endsWith (d @ f) e"
  by (auto simp: endsWith_def)

lemma depth_config_file:
  assumes "CHR ''/'' \<notin> set f" and "endsWith f ''.json''" and "\<not> endsWith d ''.json''"
  shows "depth (d @ ''/'' @ f) = depth d"
proof -
  have "filter (\<lambda>x. x = CHR ''/'') f = []"
    using assms(1) by (induction f) auto
  moreover have "endsWith (d @ ''/'' @ f) ''.json''"
    using endsWith_append [OF assms(2), of "d @ ''/''"] by simp
  ultimately show ?thesis
    using assms(3) by (simp add: depth_def length_split_on)
qed


lemma resolveLoop_events:
  "snd (snd (resolveLoop E extensions ident importer rs)) =
     concat (map (\<lambda>r. Consult (r_root r) # snd (snd (resolver_call E extensions r ident importer)))
               (take (length (consulted (snd (snd (resolveLoop E extensions ident importer rs))))) rs))"
proof (induction rs)
  case Nil
  show ?case by simp
next
  case (Cons r rs)
  show ?case
  proof (cases "truthy (fst (resolver_call E extensions r ident importer))")
    case True
    then show ?thesis
      by (simp add: resolveLoop_Cons consulted_resolver_call del: resolveLoop.simps)
  next
    case False
    then show ?thesis
      using Cons.IH
      by (simp add: resolveLoop_Cons consulted_resolver_call consulted_append
          del: resolveLoop.simps)
  qed
qed

lemma resolveLoop_resolvers:
  "fst (snd (resolveLoop E extensions ident importer rs)) =
     map (\<lambda>r. fst (snd (resolver_call E extensions r ident importer)))
       (take (length (consulted (snd (snd (resolveLoop E extensions ident importer rs))))) rs)
     @ drop (length (consulted (snd (snd (resolveLoop E extensions ident importer rs))))) rs"
proof (induction rs)
  case Nil
  show ?case by simp
next
  case (Cons r rs)
  show ?case
  proof (cases "truthy (fst (resolver_call E extensions r ident importer))")
    case True
    then show ?thesis
      by (simp add: resolveLoop_Cons consulted_resolver_call del: resolveLoop.simps)
  next
    case False
    then show ?thesis
      using Cons.IH
      by (simp add: resolveLoop_Cons consulted_resolver_call consulted_append
          del: resolveLoop.simps)
  qed
qed

lemma resolveLoop_reach:
  "i < length rs \<Longrightarrow>
   (i < length (consulted (snd (snd (resolveLoop E extensions ident importer rs))))) =
   (\<forall>k < i. \<not> truthy (fst (resolver_call E extensions (rs ! k) ident importer)))"
proof (induction rs arbitrary: i)
  case Nil
  then show ?case by simp
next
  case (Cons r rs)
  show ?case
  proof (cases "truthy (fst (resolver_call E extensions r ident importer))")
    case True
    then have len: "length (consulted (snd (snd (resolveLoop E extensions ident importer (r # rs))))) = 1"
      by (simp add: resolveLoop_Cons consulted_resolver_call del: resolveLoop.simps)
    show ?thesis
    proof (cases i)
      case 0
      then show ?thesis using len by simp
    next
      case (Suc i')
      have "\<not> (\<forall>k < i. \<not> truthy (fst (resolver_call E extensions ((r # rs) ! k) ident importer)))"
        using True Suc by (auto intro: exI [of _ 0])
      then show ?thesis using len Suc by simp
    qed
  next
    case False
    then have len: "length (consulted (snd (snd (resolveLoop E extensions ident importer (r # rs)))))
        = Suc (length (consulted (snd (snd (resolveLoop E extensions ident importer rs)))))"
      by (simp add: resolveLoop_Cons consulted_resolver_call consulted_append
          del: resolveLoop.simps)
    show ?thesis
    proof (cases i)
      case 0
      then show ?thesis using len by simp
    next
      case (Suc i')
      then have "i' < length rs" using Cons.prems by simp
      from Cons.IH [OF this]
      have "(i' < length (consulted (snd (snd (resolveLoop E extensions ident importer rs))))) =
        (\<forall>k < i'. \<not> truthy (fst (resolver_call E extensions (rs ! k) ident importer)))" .
      moreover have "(\<forall>k < Suc i'. \<not> truthy (fst (resolver_call E extensions ((r # rs) ! k) ident importer)))
        = (\<forall>k < i'. \<not> truthy (fst (resolver_call E extensions (rs ! k) ident importer)))"
        using False by (auto simp: less_Suc_eq_0_disj)
      ultimately show ?thesis using len Suc by simp
    qed
  qed
qed

lemma resolveLoop_result:
  "(if \<exists>i < length rs. truthy (fst (resolver_call E extensions (rs ! i) ident importer))
    then 0 < length (consulted (snd (snd (resolveLoop E extensions ident importer rs)))) \<and>
         truthy (fst (resolveLoop E extensions ident importer rs)) \<and>
         fst (resolveLoop E extensions ident importer rs) =
           fst (resolver_call E extensions
                  (rs ! (length (consulted (snd (snd (resolveLoop E extensions ident importer rs)))) - 1))
                  ident importer)
    else fst (resolveLoop E extensions ident importer rs) = None \<and>
         length (consulted (snd (snd (resolveLoop E extensions ident importer rs)))) = length rs)"
proof (induction rs)
  case Nil
  show ?case by simp
next
  case (Cons r rs)
  let ?n = "length (consulted (snd (snd (resolveLoop E extensions ident importer rs))))"
  show ?case
  proof (cases "truthy (fst (resolver_call E extensions r ident importer))")
    case True
    then have "\<exists>i < length (r # rs). truthy (fst (resolver_call E extensions ((r # rs) ! i) ident importer))"
      by (auto intro: exI [of _ 0])
    then show ?thesis
      using True
      by (simp add: resolveLoop_Cons consulted_resolver_call del: resolveLoop.simps)
  next
    case False
    have len: "length (consulted (snd (snd (resolveLoop E extensions ident importer (r # rs)))))
        = Suc ?n"
      and res: "fst (resolveLoop E extensions ident importer (r # rs))
        = fst (resolveLoop E extensions ident importer rs)"
      using False
      by (simp_all add: resolveLoop_Cons consulted_resolver_call consulted_append
          del: resolveLoop.simps)
    have ex: "(\<exists>i < length (r # rs). truthy (fst (resolver_call E extensions ((r # rs) ! i) ident importer)))
        = (\<exists>i < length rs. truthy (fst (resolver_call E extensions (rs ! i) ident importer)))"
      using False by (auto simp: less_Suc_eq_0_disj)
    show ?thesis
    proof (cases "\<exists>i < length rs. truthy (fst (resolver_call E extensions (rs ! i) ident importer))")
      case True
      note all = Cons.IH [unfolded if_P [OF True]]
      have ih: "0 < ?n" "truthy (fst (resolveLoop E extensions ident importer rs))"
        "fst (resolveLoop E extensions ident importer rs) =
           fst (resolver_call E extensions (rs ! (?n - 1)) ident importer)"
        using all by blast+
      have nth: "(r # rs) ! (Suc ?n - 1) = rs ! (?n - 1)"
        using ih(1) by (cases ?n) simp_all
      have eq: "fst (resolveLoop E extensions ident importer rs) =
           fst (resolver_call E extensions ((r # rs) ! (Suc ?n - 1)) ident importer)"
        unfolding nth by (rule ih(3))
      have pos: "0 < Suc ?n" by simp
      show ?thesis
        unfolding ex len res if_P [OF True] using pos ih(2) eq by (intro conjI)
    next
      case none: False
      note all = Cons.IH [unfolded if_not_P [OF none]]
      have "fst (resolveLoop E extensions ident importer rs) = None" "?n = length rs"
        using all by blast+
      then show ?thesis
        using none unfolding ex len res by simp
    qed
  qed
qed

lemma resolver_call_same:
  "(fst (snd (resolver_call E extensions r ident importer)))\<lparr>resolved := Map.empty\<rparr>
     = r\<lparr>resolved := Map.empty\<rparr>"
  by (auto simp: resolver_call_def Let_def split: prod.splits)


lemma sameResolvers_after:
  "sameResolvers rs0 rs \<Longrightarrow>
   sameResolvers rs0
     (map (\<lambda>r. fst (snd (resolver_call E extensions r ident importer))) (take n rs) @ drop n rs)"
proof -
  assume same: "sameResolvers rs0 rs"
  have "map (\<lambda>r. r\<lparr>resolved := Map.empty\<rparr>)
          (map (\<lambda>r. fst (snd (resolver_call E extensions r ident importer))) (take n rs) @ drop n rs)
        = map (\<lambda>r. r\<lparr>resolved := Map.empty\<rparr>) (take n rs @ drop n rs)"
    unfolding map_append map_map comp_def resolver_call_same ..
  then show ?thesis
    using same by (simp add: sameResolvers_def)
qed

lemma sorted_desc_index:
  assumes "sorted_wrt (\<lambda>a b. depth b \<le> depth a) ps"
    and "i < length ps" and "j < length ps" and "depth (ps ! j) < depth (ps ! i)"
  shows "i < j"
proof (rule ccontr)
  assume "\<not> i < j"
  then consider "i = j" | "j < i" by linarith
  then show False
  proof cases
    case 1
    then show ?thesis using assms(4) by simp
  next
    case 2
    then have "depth (ps ! i) \<le> depth (ps ! j)"
      using sorted_wrt_nth_less [OF assms(1) 2 assms(2)] by simp
    then show ?thesis using assms(4) by simp
  qed
qed

text \<open>
  Claim C7. The project paths are ordered by decreasing depth, where a configuration file
  has the depth of the directory that contains it, and the resolvers are those of the paths
  whose configuration loads, in that order, whatever they have cached so far. A call of the
  plugin's \<open>resolveId\<close> that passes the gate calls the resolvers in that order, each exactly
  when all resolvers before it have declined, so up to and including the first that
  succeeds; it returns the result of that resolver, or nothing when every resolver has
  declined; the calls it makes are those of the resolvers called, and these resolvers are
  the only ones it changes. So for two such paths \<open>A\<close> and \<open>B\<close> with \<open>A\<close> strictly deeper than
  \<open>B\<close>, the resolver of \<open>A\<close> comes first, it has been called whenever the resolver of \<open>B\<close> is
  called, both are called when every resolver before \<open>B\<close> declines, and the resolver of \<open>B\<close>
  is not called when the resolver of \<open>A\<close> succeeds.
\<close>

theorem deeper_project_first:
  assumes "configResolved E opts viteRoot = Inr (extensions, rs0)"
    and "sameResolvers rs0 rs"
  shows
    "(let projects = findProjects E viteRoot opts;
          ps = filter (usable E) projects;
          call = (\<lambda>r. resolver_call E extensions r ident (the importer));
          eligible = (truthy importer \<and> \<not> relativeImportRE ident \<and> \<not> isAbsolute E ident);
          out = resolveId E extensions rs ident importer;
          cs = consulted (snd (snd out))
      in sorted_wrt (\<lambda>a b. depth b \<le> depth a) projects \<and>
         (\<forall>d f. CHR ''/'' \<notin> set f \<and> endsWith f ''.json'' \<and> \<not> endsWith d ''.json'' \<longrightarrow>
            depth (d @ ''/'' @ f) = depth d) \<and>
         map r_root rs = map (rootOf E) ps \<and>
         cs = map r_root (take (length cs) rs) \<and>
         snd (snd out) =
           concat (map (\<lambda>r. Consult (r_root r) # snd (snd (call r))) (take (length cs) rs)) \<and>
         fst (snd out) =
           map (\<lambda>r. fst (snd (call r))) (take (length cs) rs) @ drop (length cs) rs \<and>
         sameResolvers rs0 (fst (snd out)) \<and>
         (eligible \<longrightarrow>
            (\<forall>i < length rs. (i < length cs) = (\<forall>k < i. \<not> truthy (fst (call (rs ! k)))))) \<and>
         (eligible \<longrightarrow>
            (if \<exists>i < length rs. truthy (fst (call (rs ! i)))
             then 0 < length cs \<and> truthy (fst out) \<and>
                  fst out = fst (call (rs ! (length cs - 1)))
             else fst out = None \<and> length cs = length rs)) \<and>
         (\<not> eligible \<longrightarrow> out = (None, rs, [])) \<and>
         (\<forall>i j. i < length ps \<and> j < length ps \<and> depth (ps ! j) < depth (ps ! i) \<longrightarrow>
            i < j \<and>
            (j < length cs \<longrightarrow>
               i < length cs \<and> cs ! i = r_root (rs ! i) \<and> cs ! j = r_root (rs ! j)) \<and>
            (truthy (fst (call (rs ! i))) \<longrightarrow> length cs \<le> j) \<and>
            (eligible \<and> (\<forall>k < j. \<not> truthy (fst (call (rs ! k)))) \<longrightarrow>
               i < length cs \<and> j < length cs)))"
proof -
  let ?projects = "findProjects E viteRoot opts"
  let ?ps = "filter (usable E) ?projects"
  let ?elig = "truthy importer \<and> \<not> relativeImportRE ident \<and> \<not> isAbsolute E ident"
  let ?out = "resolveId E extensions rs ident importer"
  let ?cs = "consulted (snd (snd ?out))"
  let ?loop = "resolveLoop E extensions ident (the importer) rs"
  have created: "createResolvers E opts ?projects = Inr rs0"
    using assms(1) by (auto simp: configResolved_def Let_def split: sum.splits)
  have c1: "sorted_wrt (\<lambda>a b. depth b \<le> depth a) ?projects"
    by (rule findProjects_sorted)
  then have sorted_ps: "sorted_wrt (\<lambda>a b. depth b \<le> depth a) ?ps"
    by (rule sorted_wrt_filter)
  have c2: "\<forall>d f. CHR ''/'' \<notin> set f \<and> endsWith f ''.json'' \<and> \<not> endsWith d ''.json'' \<longrightarrow>
            depth (d @ ''/'' @ f) = depth d"
    using depth_config_file by blast
  have "map r_root (map (\<lambda>r. r\<lparr>resolved := Map.empty\<rparr>) rs)
      = map r_root (map (\<lambda>r. r\<lparr>resolved := Map.empty\<rparr>) rs0)"
    using assms(2) by (simp only: sameResolvers_def)
  then have "map r_root rs = map r_root rs0"
    by (simp add: comp_def)
  then have c3: "map r_root rs = map (rootOf E) ?ps"
    using createResolvers_roots [OF created] by simp
  then have len: "length rs = length ?ps"
    using length_map [of r_root rs] length_map [of "rootOf E" ?ps] by simp
  have gate: "?out = (None, rs, [])" if "\<not> ?elig"
    using that by (auto simp: resolveId_def)
  have run: "?out = ?loop" if "?elig"
    using that by (simp add: resolveId_def)
  have c10: "\<not> ?elig \<longrightarrow> ?out = (None, rs, [])"
    using gate by blast
  have c4: "?cs = map r_root (take (length ?cs) rs)"
  proof (cases ?elig)
    case True
    show ?thesis
      unfolding run [OF True]
      using resolveLoop_consulted [of E extensions ident "the importer" rs]
      by (simp add: Let_def)
  next
    case False
    show ?thesis unfolding gate [OF False] by simp
  qed
  have c5: "snd (snd ?out) =
      concat (map (\<lambda>r. Consult (r_root r) # snd (snd (resolver_call E extensions r ident (the importer))))
                (take (length ?cs) rs))"
  proof (cases ?elig)
    case True
    show ?thesis unfolding run [OF True] by (rule resolveLoop_events)
  next
    case False
    show ?thesis unfolding gate [OF False] by simp
  qed
  have c6: "fst (snd ?out) =
      map (\<lambda>r. fst (snd (resolver_call E extensions r ident (the importer)))) (take (length ?cs) rs)
      @ drop (length ?cs) rs"
  proof (cases ?elig)
    case True
    show ?thesis unfolding run [OF True] by (rule resolveLoop_resolvers)
  next
    case False
    show ?thesis unfolding gate [OF False] by simp
  qed
  have c7: "sameResolvers rs0 (fst (snd ?out))"
    using sameResolvers_after [OF assms(2), of E extensions ident "the importer" "length ?cs"]
    by (simp only: c6 [symmetric])
  have reach: "(i < length ?cs) =
      (\<forall>k < i. \<not> truthy (fst (resolver_call E extensions (rs ! k) ident (the importer))))"
    if "?elig" and "i < length rs" for i
    unfolding run [OF that(1)] using that(2) by (rule resolveLoop_reach)
  then have c8: "?elig \<longrightarrow>
      (\<forall>i < length rs. (i < length ?cs) =
         (\<forall>k < i. \<not> truthy (fst (resolver_call E extensions (rs ! k) ident (the importer)))))"
    by blast
  have c9: "?elig \<longrightarrow>
      (if \<exists>i < length rs. truthy (fst (resolver_call E extensions (rs ! i) ident (the importer)))
       then 0 < length ?cs \<and> truthy (fst ?out) \<and>
            fst ?out = fst (resolver_call E extensions (rs ! (length ?cs - 1)) ident (the importer))
       else fst ?out = None \<and> length ?cs = length rs)"
  proof
    assume e: ?elig
    show "if \<exists>i < length rs. truthy (fst (resolver_call E extensions (rs ! i) ident (the importer)))
       then 0 < length ?cs \<and> truthy (fst ?out) \<and>
            fst ?out = fst (resolver_call E extensions (rs ! (length ?cs - 1)) ident (the importer))
       else fst ?out = None \<and> length ?cs = length rs"
      unfolding run [OF e] by (rule resolveLoop_result)
  qed
  have stop: "length ?cs \<le> Suc i"
    if "i < length rs"
      and "truthy (fst (resolver_call E extensions (rs ! i) ident (the importer)))" for i
  proof (cases ?elig)
    case True
    show ?thesis
      unfolding run [OF True]
      using resolveLoop_consulted [of E extensions ident "the importer" rs] that
      by (simp add: Let_def)
  next
    case False
    show ?thesis unfolding gate [OF False] by simp
  qed
  have nth_cs: "?cs ! k = r_root (rs ! k)" if "k < length ?cs" for k
  proof -
    have "length ?cs \<le> length rs"
      using arg_cong [OF c4, of length] by simp
    then have "map r_root (take (length ?cs) rs) ! k = r_root (rs ! k)"
      using that by simp
    then show ?thesis using c4 by simp
  qed
  have c11: "\<forall>i j. i < length ?ps \<and> j < length ?ps \<and> depth (?ps ! j) < depth (?ps ! i) \<longrightarrow>
      i < j \<and>
      (j < length ?cs \<longrightarrow>
         i < length ?cs \<and> ?cs ! i = r_root (rs ! i) \<and> ?cs ! j = r_root (rs ! j)) \<and>
      (truthy (fst (resolver_call E extensions (rs ! i) ident (the importer))) \<longrightarrow>
         length ?cs \<le> j) \<and>
      (?elig \<and> (\<forall>k < j. \<not> truthy (fst (resolver_call E extensions (rs ! k) ident (the importer))))
         \<longrightarrow> i < length ?cs \<and> j < length ?cs)"
  proof (intro allI impI)
    fix i j
    assume h: "i < length ?ps \<and> j < length ?ps \<and> depth (?ps ! j) < depth (?ps ! i)"
    then have ij: "i < j"
      using sorted_desc_index [OF sorted_ps, of i j] by simp
    have a: "j < length ?cs \<longrightarrow>
         i < length ?cs \<and> ?cs ! i = r_root (rs ! i) \<and> ?cs ! j = r_root (rs ! j)"
      using ij nth_cs by auto
    have b: "truthy (fst (resolver_call E extensions (rs ! i) ident (the importer))) \<longrightarrow>
         length ?cs \<le> j"
      using stop [of i] h len ij by auto
    have c: "?elig \<and> (\<forall>k < j. \<not> truthy (fst (resolver_call E extensions (rs ! k) ident (the importer))))
         \<longrightarrow> i < length ?cs \<and> j < length ?cs"
    proof
      assume e: "?elig \<and>
        (\<forall>k < j. \<not> truthy (fst (resolver_call E extensions (rs ! k) ident (the importer))))"
      then have "j < length ?cs"
        using reach [of j] h len by simp
      then show "i < length ?cs \<and> j < length ?cs"
        using ij by simp
    qed
    show "i < j \<and>
      (j < length ?cs \<longrightarrow>
         i < length ?cs \<and> ?cs ! i = r_root (rs ! i) \<and> ?cs ! j = r_root (rs ! j)) \<and>
      (truthy (fst (resolver_call E extensions (rs ! i) ident (the importer))) \<longrightarrow>
         length ?cs \<le> j) \<and>
      (?elig \<and> (\<forall>k < j. \<not> truthy (fst (resolver_call E extensions (rs ! k) ident (the importer))))
         \<longrightarrow> i < length ?cs \<and> j < length ?cs)"
      using ij a b c by (intro conjI)
  qed
  show ?thesis
    unfolding Let_def
    using c1 c2 c3 c4 c5 c6 c7 c8 c9 c10 c11 by (intro conjI)
qed


theorem deeper_project_first_witness:
  "(\<exists>rs0.
      configResolved exampleEnv noOptions ''/proj'' = Inr (requiredExts, rs0) \<and>
      sameResolvers rs0
        (fst (snd (resolveId exampleEnv requiredExts rs0 ''lib/x'' (Some ''/proj/a/src/main.ts'')))) \<and>
      consulted (snd (snd (resolveId exampleEnv requiredExts rs0 ''lib/x''
                             (Some ''/proj/a/src/main.ts''))))
        = [''/proj/a/''] \<and>
      fst (resolveId exampleEnv requiredExts rs0 ''lib/x'' (Some ''/proj/a/src/main.ts''))
        = Some ''/proj/a/src/lib/x.ts'' \<and>
      consulted (snd (snd (resolveId exampleEnv requiredExts
                             (fst (snd (resolveId exampleEnv requiredExts rs0 ''lib/x''
                                          (Some ''/proj/a/src/main.ts''))))
                             ''@utils/format'' (Some ''/proj/a/src/main.ts''))))
        = [''/proj/a/'', ''/proj/''] \<and>
      fst (resolveId exampleEnv requiredExts
             (fst (snd (resolveId exampleEnv requiredExts rs0 ''lib/x''
                          (Some ''/proj/a/src/main.ts''))))
             ''@utils/format'' (Some ''/proj/a/src/main.ts''))
        = Some ''/proj/src/utils/format.ts'') \<and>
   filter (usable exampleEnv) (findProjects exampleEnv ''/proj'' noOptions)
     = [''/proj/a/tsconfig.json'', ''/proj/tsconfig.json''] \<and>
   depth ''/proj/tsconfig.json'' < depth ''/proj/a/tsconfig.json''"
proof -
  let ?imp = "''/proj/a/src/main.ts''"
  have "case configResolved exampleEnv noOptions ''/proj'' of
          Inl e \<Rightarrow> False
        | Inr (exts, rs0) \<Rightarrow>
            exts = requiredExts \<and>
            fst (resolver_call exampleEnv requiredExts (rs0 ! 0) ''lib/x'' ?imp)
              = Some ''/proj/a/src/lib/x.ts'' \<and>
            fst (resolver_call exampleEnv requiredExts
                   (fst (snd (resolveId exampleEnv requiredExts rs0 ''lib/x'' (Some ?imp))) ! 0)
                   ''@utils/format'' ?imp) = None \<and>
            fst (resolver_call exampleEnv requiredExts
                   (fst (snd (resolveId exampleEnv requiredExts rs0 ''lib/x'' (Some ?imp))) ! 1)
                   ''@utils/format'' ?imp) = Some ''/proj/src/utils/format.ts''"
    by code_simp
  then obtain rs0 where rs0: "configResolved exampleEnv noOptions ''/proj'' = Inr (requiredExts, rs0)"
    and hitA: "fst (resolver_call exampleEnv requiredExts (rs0 ! 0) ''lib/x'' ?imp)
              = Some ''/proj/a/src/lib/x.ts''"
    and missA: "fst (resolver_call exampleEnv requiredExts
                   (fst (snd (resolveId exampleEnv requiredExts rs0 ''lib/x'' (Some ?imp))) ! 0)
                   ''@utils/format'' ?imp) = None"
    and hitB: "fst (resolver_call exampleEnv requiredExts
                   (fst (snd (resolveId exampleEnv requiredExts rs0 ''lib/x'' (Some ?imp))) ! 1)
                   ''@utils/format'' ?imp) = Some ''/proj/src/utils/format.ts''"
    by (auto split: sum.splits)
  let ?out1 = "resolveId exampleEnv requiredExts rs0 ''lib/x'' (Some ?imp)"
  let ?rs1 = "fst (snd ?out1)"
  let ?out2 = "resolveId exampleEnv requiredExts ?rs1 ''@utils/format'' (Some ?imp)"
  have ps: "filter (usable exampleEnv) (findProjects exampleEnv ''/proj'' noOptions)
     = [''/proj/a/tsconfig.json'', ''/proj/tsconfig.json'']"
    by code_simp
  have d: "depth ''/proj/tsconfig.json'' < depth ''/proj/a/tsconfig.json''"
    by code_simp
  have roots: "map (rootOf exampleEnv) [''/proj/a/tsconfig.json'', ''/proj/tsconfig.json'']
      = [''/proj/a/'', ''/proj/'']"
    by code_simp
  have el1: "truthy (Some ?imp) \<and> \<not> relativeImportRE ''lib/x'' \<and> \<not> isAbsolute exampleEnv ''lib/x''"
    by code_simp
  have el2: "truthy (Some ?imp) \<and> \<not> relativeImportRE ''@utils/format''
      \<and> \<not> isAbsolute exampleEnv ''@utils/format''"
    by code_simp
  have same0: "sameResolvers rs0 rs0"
    by (simp add: sameResolvers_def)
  note T1 = deeper_project_first [OF rs0 same0, of "''lib/x''" "Some ?imp",
      unfolded Let_def ps roots option.sel]
  have same1: "sameResolvers rs0 ?rs1"
    by (rule T1 [THEN conjunct2, THEN conjunct2, THEN conjunct2, THEN conjunct2, THEN conjunct2, THEN conjunct2, THEN conjunct1])
  note T2 = deeper_project_first [OF rs0 same1, of "''@utils/format''" "Some ?imp",
      unfolded Let_def ps roots option.sel]
  have r0: "map r_root rs0 = [''/proj/a/'', ''/proj/'']"
    by (rule T1 [THEN conjunct2, THEN conjunct2, THEN conjunct1])
  have r1: "map r_root ?rs1 = [''/proj/a/'', ''/proj/'']"
    by (rule T2 [THEN conjunct2, THEN conjunct2, THEN conjunct1])
  have l0: "length rs0 = 2"
    using arg_cong [OF r0, of length] by simp
  have l1: "length ?rs1 = 2"
    using arg_cong [OF r1, of length] by simp
  have pre1: "consulted (snd (snd ?out1)) = map r_root (take (length (consulted (snd (snd ?out1)))) rs0)"
    by (rule T1 [THEN conjunct2, THEN conjunct2, THEN conjunct2, THEN conjunct1])
  have pre2: "consulted (snd (snd ?out2)) = map r_root (take (length (consulted (snd (snd ?out2)))) ?rs1)"
    by (rule T2 [THEN conjunct2, THEN conjunct2, THEN conjunct2, THEN conjunct1])
  have reach1: "\<forall>i < length rs0. (i < length (consulted (snd (snd ?out1)))) =
      (\<forall>k < i. \<not> truthy (fst (resolver_call exampleEnv requiredExts (rs0 ! k) ''lib/x'' ?imp)))"
    by (rule mp [OF T1 [THEN conjunct2, THEN conjunct2, THEN conjunct2, THEN conjunct2, THEN conjunct2, THEN conjunct2, THEN conjunct2, THEN conjunct1] el1])
  have reach2: "\<forall>i < length ?rs1. (i < length (consulted (snd (snd ?out2)))) =
      (\<forall>k < i. \<not> truthy (fst (resolver_call exampleEnv requiredExts (?rs1 ! k) ''@utils/format'' ?imp)))"
    by (rule mp [OF T2 [THEN conjunct2, THEN conjunct2, THEN conjunct2, THEN conjunct2, THEN conjunct2, THEN conjunct2, THEN conjunct2, THEN conjunct1] el2])
  have n1: "length (consulted (snd (snd ?out1))) = 1"
  proof -
    have "0 < length (consulted (snd (snd ?out1)))"
      using reach1 [rule_format, of 0] l0 by simp
    moreover have "\<not> 1 < length (consulted (snd (snd ?out1)))"
      using reach1 [rule_format, of 1] l0 hitA by simp
    ultimately show ?thesis by linarith
  qed
  have n2: "length (consulted (snd (snd ?out2))) = 2"
  proof -
    have "1 < length (consulted (snd (snd ?out2)))"
      using reach2 [rule_format, of 1] l1 missA by simp
    moreover have "length (consulted (snd (snd ?out2))) \<le> length ?rs1"
      using arg_cong [OF pre2, of length] by simp
    ultimately show ?thesis using l1 by linarith
  qed
  have cs1: "consulted (snd (snd ?out1)) = [''/proj/a/'']"
    using pre1 r0 l0 unfolding n1 by (cases rs0) (auto simp: take_Suc_conv_app_nth)
  have cs2: "consulted (snd (snd ?out2)) = [''/proj/a/'', ''/proj/'']"
    using pre2 r1 l1 unfolding n2 by simp
  have res1: "fst ?out1 = Some ''/proj/a/src/lib/x.ts''"
  proof -
    have "\<exists>i < length rs0. truthy (fst (resolver_call exampleEnv requiredExts (rs0 ! i) ''lib/x'' ?imp))"
      using hitA l0 by (intro exI [of _ 0]) simp
    then have "fst ?out1 = fst (resolver_call exampleEnv requiredExts
        (rs0 ! (length (consulted (snd (snd ?out1))) - 1)) ''lib/x'' ?imp)"
      using mp [OF T1 [THEN conjunct2, THEN conjunct2, THEN conjunct2, THEN conjunct2, THEN conjunct2, THEN conjunct2, THEN conjunct2, THEN conjunct2, THEN conjunct1] el1] by (simp only: if_True)
    then show ?thesis using hitA n1 by simp
  qed
  have res2: "fst ?out2 = Some ''/proj/src/utils/format.ts''"
  proof -
    have "\<exists>i < length ?rs1. truthy (fst (resolver_call exampleEnv requiredExts (?rs1 ! i)
        ''@utils/format'' ?imp))"
      using hitB l1 by (intro exI [of _ 1]) simp
    then have "fst ?out2 = fst (resolver_call exampleEnv requiredExts
        (?rs1 ! (length (consulted (snd (snd ?out2))) - 1)) ''@utils/format'' ?imp)"
      using mp [OF T2 [THEN conjunct2, THEN conjunct2, THEN conjunct2, THEN conjunct2, THEN conjunct2, THEN conjunct2, THEN conjunct2, THEN conjunct2, THEN conjunct1] el2] by (simp only: if_True)
    then show ?thesis using hitB n2 by simp
  qed
  from rs0 same1 cs1 res1 cs2 res2 have "\<exists>rs0.
      configResolved exampleEnv noOptions ''/proj'' = Inr (requiredExts, rs0) \<and>
      sameResolvers rs0
        (fst (snd (resolveId exampleEnv requiredExts rs0 ''lib/x'' (Some ?imp)))) \<and>
      consulted (snd (snd (resolveId exampleEnv requiredExts rs0 ''lib/x'' (Some ?imp))))
        = [''/proj/a/''] \<and>
      fst (resolveId exampleEnv requiredExts rs0 ''lib/x'' (Some ?imp))
        = Some ''/proj/a/src/lib/x.ts'' \<and>
      consulted (snd (snd (resolveId exampleEnv requiredExts
                             (fst (snd (resolveId exampleEnv requiredExts rs0 ''lib/x'' (Some ?imp))))
                             ''@utils/format'' (Some ?imp))))
        = [''/proj/a/'', ''/proj/''] \<and>
      fst (resolveId exampleEnv requiredExts
             (fst (snd (resolveId exampleEnv requiredExts rs0 ''lib/x'' (Some ?imp))))
             ''@utils/format'' (Some ?imp))
        = Some ''/proj/src/utils/format.ts''"
    by (intro exI [of _ rs0] conjI)
  with ps d show ?thesis
    by (intro conjI)
qed

end
